theory Spec2Isabelle
  imports Complex_Main "HOL-Library.Sublist" "HOL-Library.Word"
begin

section \<open>Python values, errors and arrays\<close>

text \<open>
  The converter's transforms are Python functions over numpy arrays. They raise
  exceptions, which the model returns as values: a call yields \<open>Inl e\<close> where the source
  raises \<open>e\<close>, and \<open>Inr r\<close> where it returns \<open>r\<close>.
\<close>

datatype py_error = ValueError | IndexError | KeyError | TypeError | FloatingPointError

text \<open>
  The metadata dictionaries hold strings, integers, floats, booleans, lists and \<open>None\<close>.
  A dictionary is a finite map from its string keys.
\<close>

datatype pyval =
    PNone
  | PBool bool
  | PInt int
  | PFloat real
  | PStr string
  | PList "pyval list"

type_synonym pydict = "string \<rightharpoonup> pyval"

text \<open>
  A numpy array is its \<open>shape\<close> together with its items along axis 0, each item
  flattened in row-major order: for a point cloud of shape \<open>(N, w)\<close> the items are the
  \<open>N\<close> points, each a list of \<open>w\<close> numbers. An empty cloud still has a width, so the
  shape is kept beside the rows.
\<close>

record 'a ndarray =
  shape :: "nat list"
  rows :: "'a list list"

definition ndim :: "'a ndarray \<Rightarrow> nat" where
  "ndim a = length (shape a)"

definition wf_ndarray :: "'a ndarray \<Rightarrow> bool" where
  "wf_ndarray a \<longleftrightarrow>
     shape a \<noteq> [] \<and> hd (shape a) = length (rows a) \<and>
     list_all (\<lambda>r. length r = prod_list (tl (shape a))) (rows a)"

text \<open>
  \<open>points[indices]\<close> with an integer index array: the rows at those indices, in the
  order of the indices. numpy raises \<open>IndexError\<close> for an index beyond axis 0.
\<close>

definition take_rows :: "'a ndarray \<Rightarrow> nat list \<Rightarrow> py_error + 'a ndarray" where
  "take_rows a ixs =
     (if list_all (\<lambda>i. i < length (rows a)) ixs
      then Inr \<lparr>shape = length ixs # tl (shape a), rows = map (\<lambda>i. rows a ! i) ixs\<rparr>
      else Inl IndexError)"

section \<open>Downsampling (transforms/downsample.py)\<close>

definition tier_map :: "string \<rightharpoonup> nat" where
  "tier_map = map_of [(''100k'', 100000), (''50k'', 50000)]"

definition get_target_count :: "string \<Rightarrow> py_error + nat" where
  "get_target_count tier =
     (case tier_map tier of None \<Rightarrow> Inl ValueError | Some n \<Rightarrow> Inr n)"

text \<open>
  The sampler is numpy's: \<open>np.random.default_rng(seed=seed).choice(n, size=k,
  replace=False)\<close>. The generator is created from the seed inside every call, so the draw
  is a function of \<open>(seed, n, k)\<close>; the model takes that function as the parameter
  \<open>rc\<close>. numpy rejects a negative seed and a sample larger than the population with a
  \<open>ValueError\<close>; otherwise it returns, and what it returns is \<open>k\<close> distinct
  indices below \<open>n\<close>. That is all the model assumes of it.
\<close>

type_synonym rng_choice = "int \<Rightarrow> nat \<Rightarrow> nat \<Rightarrow> py_error + nat list"

definition numpy_choice_contract :: "rng_choice \<Rightarrow> bool" where
  "numpy_choice_contract rc \<longleftrightarrow>
     (\<forall>seed n k.
        (0 \<le> seed \<and> k \<le> n \<longrightarrow> (\<exists>ixs. rc seed n k = Inr ixs)) \<and>
        (\<forall>ixs. rc seed n k = Inr ixs \<longrightarrow>
           length ixs = k \<and> distinct ixs \<and> set ixs \<subseteq> {..<n}))"

text \<open>
  A sampler that meets the contract, for running the model: the first \<open>k\<close> indices,
  handed over in descending order.
\<close>

definition descending_choice :: rng_choice where
  "descending_choice seed n k =
     (if seed < 0 \<or> n < k then Inl ValueError else Inr (rev [0..<k]))"

text \<open>A cloud of \<open>n\<close> points of width 3 whose \<open>i\<close>-th point is \<open>(i, i, i)\<close>.\<close>

definition diagonal_cloud :: "nat \<Rightarrow> nat ndarray" where
  "diagonal_cloud n = \<lparr>shape = [n, 3], rows = map (\<lambda>i. [i, i, i]) [0..<n]\<rparr>"

text \<open>
  \<open>downsample_points(points, target_tier, seed)\<close>. The two float-valued metadata
  entries are kept as exact quotients: \<open>0.01 * target_count\<close> is \<open>1000.0\<close> and
  \<open>500.0\<close> in binary64 for the two tiers, as it is here.
\<close>

definition downsample_points ::
  "rng_choice \<Rightarrow> 'a ndarray \<Rightarrow> string \<Rightarrow> int \<Rightarrow> py_error + ('a ndarray \<times> pydict)" where
  "downsample_points rc points target_tier seed =
     (case tier_map target_tier of
        None \<Rightarrow> Inl ValueError
      | Some target_count \<Rightarrow>
          if ndim points \<noteq> 2 \<or> shape points ! 1 < 3 then Inl ValueError
          else
            let original_count = shape points ! 0 in
            if original_count \<le> target_count then
              Inr (points,
                map_of [
                  (''method'', PStr ''none''),
                  (''target_tier'', PStr target_tier),
                  (''target_count'', PInt (int target_count)),
                  (''original_count'', PInt (int original_count)),
                  (''final_count'', PInt (int original_count)),
                  (''reduction_ratio'', PFloat 1),
                  (''within_spec'', PBool True),
                  (''reason'', PStr ''original_count <= target_count'')])
            else
              (case rc seed original_count target_count of
                 Inl e \<Rightarrow> Inl e
               | Inr indices \<Rightarrow>
                   (case take_rows points (sort indices) of
                      Inl e \<Rightarrow> Inl e
                    | Inr downsampled \<Rightarrow>
                        let final_count = shape downsampled ! 0;
                            tolerance = 0.01 * real target_count;
                            within_spec =
                              (\<bar>real_of_int (int final_count - int target_count)\<bar> \<le> tolerance)
                        in Inr (downsampled,
                             map_of [
                               (''method'', PStr ''random''),
                               (''target_tier'', PStr target_tier),
                               (''target_count'', PInt (int target_count)),
                               (''original_count'', PInt (int original_count)),
                               (''final_count'', PInt (int final_count)),
                               (''reduction_ratio'',
                                  PFloat (real final_count / real original_count)),
                               (''within_spec'', PBool within_spec),
                               (''tolerance_pct'', PFloat 1)]))))"

section \<open>Floating-point arithmetic of numpy\<close>

text \<open>
  The arrays hold IEEE binary32 numbers, and Python's own floats are binary64. A finite
  float is modelled by the real number it denotes; an operation on floats is the exact
  operation on reals followed by rounding to the format. \<open>float_round p emin\<close> rounds
  to nearest, ties to even, in the format with \<open>p\<close> significant bits and least normal
  exponent \<open>emin\<close> (gradual underflow below it). The exponent range is not bounded
  above: overflow of binary32 and binary64, near \<open>3.4e38\<close> and \<open>1.8e308\<close>, is outside
  the model. Overflow of binary16, which sets in at \<open>65520\<close>, is modelled in
  \<open>to_float16\<close>.
\<close>

definition round_half_even :: "real \<Rightarrow> int" where
  "round_half_even q =
     (let f = \<lfloor>q\<rfloor>; d = q - of_int f
      in if d < 1/2 then f else if 1/2 < d then f + 1 else if even f then f else f + 1)"

definition float_exponent :: "int \<Rightarrow> real \<Rightarrow> int" where
  "float_exponent emin x = max emin \<lfloor>log 2 \<bar>x\<bar>\<rfloor>"

definition float_ulp :: "nat \<Rightarrow> int \<Rightarrow> real \<Rightarrow> real" where
  "float_ulp p emin x = 2 powr (of_int (float_exponent emin x - int p + 1))"

definition float_round :: "nat \<Rightarrow> int \<Rightarrow> real \<Rightarrow> real" where
  "float_round p emin x =
     of_int (round_half_even (x / float_ulp p emin x)) * float_ulp p emin x"

text \<open>
  The transforms are written over an arithmetic: the rounding after each binary32
  operation on array elements and the rounding after each binary64 operation on Python
  floats. \<open>ieee_arith\<close> is the arithmetic numpy runs; \<open>exact_arith\<close> rounds nothing,
  and shows what a computation yields on the real numbers.
\<close>

record np_arith =
  f32 :: "real \<Rightarrow> real"
  f64 :: "real \<Rightarrow> real"

definition ieee_arith :: np_arith where
  "ieee_arith = \<lparr>f32 = float_round 24 (-126), f64 = float_round 53 (-1022)\<rparr>"

definition exact_arith :: np_arith where
  "exact_arith = \<lparr>f32 = (\<lambda>x. x), f64 = (\<lambda>x. x)\<rparr>"

text \<open>
  A binary16 value: finite, or an infinity. \<open>astype(np.float16)\<close> rounds to binary16
  (11 significant bits, least normal exponent \<open>-14\<close>); a result beyond the largest
  finite value \<open>65504\<close> is the infinity of its sign.
\<close>

datatype fpval = Finite real | PosInf | NegInf

definition to_float16 :: "real \<Rightarrow> fpval" where
  "to_float16 x =
     (let r = float_round 11 (-14) x
      in if 65504 < r then PosInf else if r < - 65504 then NegInf else Finite r)"

text \<open>
  \<open>astype(np.int16)\<close> and \<open>astype(np.uint16)\<close> of a float drop the fraction
  (rounding toward zero). A 16-bit word holds the result; outside the 16-bit range the
  C conversion is undefined, and the model wraps.
\<close>

definition trunc :: "real \<Rightarrow> int" where
  "trunc x = (if 0 \<le> x then \<lfloor>x\<rfloor> else \<lceil>x\<rceil>)"

definition to_int16 :: "real \<Rightarrow> 16 word" where
  "to_int16 x = word_of_int (trunc x)"

definition to_uint16 :: "real \<Rightarrow> 16 word" where
  "to_uint16 x = word_of_int (trunc x)"

text \<open>
  Reductions. \<open>min\<close> and \<open>max\<close> of a zero-size array raise \<open>ValueError\<close> in numpy.
  The sum adds from left to right, rounding each partial sum, as numpy does for fewer
  than eight elements (longer arrays are added in blocks; with \<open>exact_arith\<close> the order
  makes no difference). The mean is the sum divided by the count.
\<close>

definition np_min :: "real list \<Rightarrow> py_error + real" where
  "np_min xs = (case xs of [] \<Rightarrow> Inl ValueError | x # ys \<Rightarrow> Inr (fold min ys x))"

definition np_max :: "real list \<Rightarrow> py_error + real" where
  "np_max xs = (case xs of [] \<Rightarrow> Inl ValueError | x # ys \<Rightarrow> Inr (fold max ys x))"

definition np_sum :: "np_arith \<Rightarrow> real list \<Rightarrow> real" where
  "np_sum A xs = foldl (\<lambda>s x. f32 A (s + x)) 0 xs"

definition np_mean :: "np_arith \<Rightarrow> real list \<Rightarrow> real" where
  "np_mean A xs = f32 A (np_sum A xs / real (length xs))"

section \<open>Quantization (transforms/quantize.py)\<close>

text \<open>
  The result of a quantization is a float32 array (mode \<open>off\<close>), a float16 array
  (mode \<open>fp16\<close>), and in mode \<open>int16\<close> an int16 array of shape \<open>(N, 3)\<close> or, when the
  cloud has an intensity column, a structured array of records with int16 fields
  \<open>x\<close>, \<open>y\<close>, \<open>z\<close> and a uint16 field \<open>intensity\<close>.
\<close>

datatype point_record =
  PointRecord (rec_x: "16 word") (rec_y: "16 word") (rec_z: "16 word")
    (rec_intensity: "16 word")

datatype quantized =
    QFloat32 "real ndarray"
  | QFloat16 "fpval ndarray"
  | QInt16 "16 word ndarray"
  | QStruct "point_record list"

definition quantize_off :: "real ndarray \<Rightarrow> real ndarray \<times> pydict" where
  "quantize_off points =
     (points, map_of [
        (''mode'', PStr ''off''),
        (''dtype'', PStr ''float32''),
        (''bytes_per_point'', PInt 16),
        (''compression'', PFloat 1)])"

text \<open>
  \<open>quantize_fp16\<close>: the array is cast to float32 if it is not float32 already (the
  rounding leaves a float32 value as it is), then to float16.
\<close>

definition quantize_fp16 :: "np_arith \<Rightarrow> real ndarray \<Rightarrow> fpval ndarray \<times> pydict" where
  "quantize_fp16 A points =
     (let points32 = map (map (f32 A)) (rows points);
          quantized = \<lparr>shape = shape points, rows = map (map to_float16) points32\<rparr>
      in (quantized, map_of [
            (''mode'', PStr ''fp16''),
            (''dtype'', PStr ''float16''),
            (''bytes_per_point'', PInt 8),
            (''compression'', PFloat 0.5),
            (''precision_loss_pct'', PFloat 0.1),
            (''suitable_range'', PStr ''[-65504, 65504] (meters)'')]))"

text \<open>
  \<open>quantize_int16\<close>. \<open>xyz.min(axis=0)\<close> of a cloud without points raises
  \<open>ValueError\<close>. Dividing by zero, which numpy answers with an infinity or a nan and a
  \<open>RuntimeWarning\<close>, is the outcome \<open>FloatingPointError\<close> of the model, so that a
  theorem can say whether it occurs.
\<close>

definition column :: "'a list list \<Rightarrow> nat \<Rightarrow> 'a list" where
  "column rs k = map (\<lambda>r. r ! k) rs"

definition unit_if_zero :: "real list \<Rightarrow> real list" where
  "unit_if_zero bbox_range = map (\<lambda>d. if d = 0 then 1 else d) bbox_range"

definition normalize_point :: "np_arith \<Rightarrow> real list \<Rightarrow> real list \<Rightarrow> real list \<Rightarrow> real list" where
  "normalize_point A bbox_min bbox_range p =
     map (\<lambda>k. f32 A (f32 A (f32 A (2 * f32 A (p ! k - bbox_min ! k)) / bbox_range ! k) - 1))
       [0, 1, 2]"

definition quantize_intensity :: "np_arith \<Rightarrow> real \<Rightarrow> 16 word" where
  "quantize_intensity A i = to_uint16 (max 0 (min 65535 (f32 A (i * 65535))))"

definition quantize_int16 :: "np_arith \<Rightarrow> real ndarray \<Rightarrow> py_error + (quantized \<times> pydict)" where
  "quantize_int16 A points =
     (if ndim points < 2 then Inl IndexError
      else if shape points ! 1 < 3 then Inl ValueError
      else
        let points32 = map (map (f32 A)) (rows points);
            xyz = map (take 3) points32;
            has_intensity = (3 < shape points ! 1);
            intensity = (if has_intensity then column points32 3 else [])
        in case (np_min (column xyz 0), np_min (column xyz 1), np_min (column xyz 2),
                 np_max (column xyz 0), np_max (column xyz 1), np_max (column xyz 2)) of
             (Inr min0, Inr min1, Inr min2, Inr max0, Inr max1, Inr max2) \<Rightarrow>
               let bbox_min = [min0, min1, min2];
                   bbox_max = [max0, max1, max2];
                   bbox_range = unit_if_zero (map2 (\<lambda>hi lo. f32 A (hi - lo)) bbox_max bbox_min)
               in if list_ex (\<lambda>d. d = 0) bbox_range then Inl FloatingPointError
                  else
                    let xyz_normalized = map (normalize_point A bbox_min bbox_range) xyz;
                        xyz_quantized =
                          map (map (\<lambda>v. to_int16 (f32 A (v * 32767)))) xyz_normalized;
                        quantized =
                          (if has_intensity
                           then QStruct (map2 (\<lambda>q i. PointRecord (q ! 0) (q ! 1) (q ! 2)
                                                 (quantize_intensity A i))
                                           xyz_quantized intensity)
                           else QInt16 \<lparr>shape = [length xyz_quantized, 3],
                                         rows = xyz_quantized\<rparr>)
                    in Inr (quantized, map_of [
                         (''mode'', PStr ''int16''),
                         (''dtype'', PStr (if has_intensity
                                           then ''int16 (xyz) + uint16 (intensity)''
                                           else ''int16'')),
                         (''bytes_per_point'', PInt (if has_intensity then 8 else 6)),
                         (''compression'', PFloat 0.5),
                         (''bbox_min'', PList (map PFloat bbox_min)),
                         (''bbox_max'', PList (map PFloat bbox_max)),
                         (''intensity_scale'', if has_intensity then PInt 65535 else PNone),
                         (''precision_mm'',
                            PFloat (f32 A (f32 A (fold max (tl bbox_range) (hd bbox_range)
                                                   / 32767) * 1000)))])
           | _ \<Rightarrow> Inl ValueError)"

definition quantize_points ::
  "np_arith \<Rightarrow> real ndarray \<Rightarrow> string \<Rightarrow> py_error + (quantized \<times> pydict)" where
  "quantize_points A points mode =
     (if mode \<notin> {''off'', ''fp16'', ''int16''} then Inl ValueError
      else if mode = ''off'' then Inr (map_prod QFloat32 id (quantize_off points))
      else if mode = ''fp16'' then Inr (map_prod QFloat16 id (quantize_fp16 A points))
      else quantize_int16 A points)"

text \<open>
  \<open>dequantize_points\<close>. \<open>astype(np.float32)\<close> widens float16 and int16 values
  without rounding; numpy does not cast a structured array to a float.
\<close>

definition finite_array :: "real ndarray \<Rightarrow> fpval ndarray" where
  "finite_array a = \<lparr>shape = shape a, rows = map (map Finite) (rows a)\<rparr>"

definition astype_float32 :: "np_arith \<Rightarrow> quantized \<Rightarrow> py_error + fpval ndarray" where
  "astype_float32 A quantized =
     (case quantized of
        QFloat32 a \<Rightarrow> Inr \<lparr>shape = shape a, rows = map (map (\<lambda>v. Finite (f32 A v))) (rows a)\<rparr>
      | QFloat16 a \<Rightarrow> Inr a
      | QInt16 a \<Rightarrow>
          Inr \<lparr>shape = shape a, rows = map (map (\<lambda>q. Finite (real_of_int (sint q)))) (rows a)\<rparr>
      | QStruct rs \<Rightarrow> Inl TypeError)"

text \<open>
  \<open>np.array(metadata[key], dtype=np.float32)\<close>: a missing key is a \<open>KeyError\<close>. The
  model converts a list of numbers, or a single number (which numpy broadcasts like a
  list of one); it rejects every other value, also the few that numpy would still
  convert (a numeric string, a nested list).
\<close>

definition float_array :: "np_arith \<Rightarrow> pydict \<Rightarrow> string \<Rightarrow> py_error + real list" where
  "float_array A metadata key =
     (let number = (\<lambda>v. case v of PFloat r \<Rightarrow> Some (f32 A r)
                             | PInt n \<Rightarrow> Some (f32 A (real_of_int n))
                             | PBool b \<Rightarrow> Some (if b then 1 else 0)
                             | _ \<Rightarrow> None)
      in case metadata key of
           None \<Rightarrow> Inl KeyError
         | Some (PList vs) \<Rightarrow>
             if list_all (\<lambda>v. number v \<noteq> None) vs then Inr (map (\<lambda>v. the (number v)) vs)
             else Inl ValueError
         | Some PNone \<Rightarrow> Inl TypeError
         | Some (PStr s) \<Rightarrow> Inl ValueError
         | Some v \<Rightarrow> Inr [the (number v)])"

text \<open>
  Broadcasting along the last axis: two lengths are compatible when they are equal or
  one of them is 1, and an operand of length 1 is read at index 0 throughout.
\<close>

definition bdim :: "nat \<Rightarrow> nat \<Rightarrow> py_error + nat" where
  "bdim a b =
     (if a = b then Inr a else if a = 1 then Inr b else if b = 1 then Inr a
      else Inl ValueError)"

definition bget :: "real list \<Rightarrow> nat \<Rightarrow> real" where
  "bget v k = v ! (if length v = 1 then 0 else k)"

text \<open>
  The integer branch of \<open>dequantize_points\<close>: from the int16 columns \<open>xyz\<close> (of the
  given width), the uint16 intensities (if any) and the two corners of the bounding box
  to float32 points.
\<close>

definition denormalize ::
  "np_arith \<Rightarrow> real list \<Rightarrow> real list \<Rightarrow> nat \<Rightarrow> 16 word list list \<Rightarrow> 16 word list option \<Rightarrow>
     py_error + fpval ndarray" where
  "denormalize A bbox_min bbox_max width xyz_int16 intensity_uint16 =
     (case bdim (length bbox_max) (length bbox_min) of
        Inl e \<Rightarrow> Inl e
      | Inr wr \<Rightarrow>
          let bbox_range =
                unit_if_zero (map (\<lambda>k. f32 A (bget bbox_max k - bget bbox_min k)) [0..<wr]);
              xyz_normalized =
                map (map (\<lambda>q. f32 A (real_of_int (sint q) / 32767))) xyz_int16
          in case bdim width wr of
               Inl e \<Rightarrow> Inl e
             | Inr w1 \<Rightarrow>
                 (case bdim w1 (length bbox_min) of
                    Inl e \<Rightarrow> Inl e
                  | Inr w2 \<Rightarrow>
                      let xyz_float32 =
                            map (\<lambda>r. map (\<lambda>k. f32 A (f32 A (f32 A (f32 A (bget r k + 1) / 2)
                                                      * bget bbox_range k) + bget bbox_min k))
                                       [0..<w2])
                              xyz_normalized
                      in (case intensity_uint16 of
                            Some ints \<Rightarrow>
                              Inr (finite_array
                                \<lparr>shape = [length xyz_float32, w2 + 1],
                                 rows = map2 (\<lambda>r i. r @ [f32 A (real (unat i) / 65535)])
                                          xyz_float32 ints\<rparr>)
                          | None \<Rightarrow>
                              Inr (finite_array
                                \<lparr>shape = [length xyz_float32, w2], rows = xyz_float32\<rparr>))))"

text \<open>A plain (unstructured) integer array: its first three columns, and the fourth if any.\<close>

definition denormalize_plain ::
  "np_arith \<Rightarrow> real list \<Rightarrow> real list \<Rightarrow> 16 word ndarray \<Rightarrow> py_error + fpval ndarray" where
  "denormalize_plain A bbox_min bbox_max a =
     (if ndim a < 2 then Inl IndexError
      else denormalize A bbox_min bbox_max (min 3 (shape a ! 1)) (map (take 3) (rows a))
             (if 3 < shape a ! 1 then Some (column (rows a) 3) else None))"

text \<open>
  In the integer branch a float array given in the place of an integer one is cast with
  \<open>astype(np.int16)\<close>; the cast of an infinity, undefined in C, is 0 in the model.
\<close>

definition astype_int16 :: "fpval \<Rightarrow> 16 word" where
  "astype_int16 v = (case v of Finite r \<Rightarrow> to_int16 r | _ \<Rightarrow> 0)"

definition dequantize_points ::
  "np_arith \<Rightarrow> quantized \<Rightarrow> pydict \<Rightarrow> py_error + fpval ndarray" where
  "dequantize_points A quantized metadata =
     (let mode = metadata ''mode'' in
      if mode = Some (PStr ''off'') then astype_float32 A quantized
      else if mode = Some (PStr ''fp16'') then astype_float32 A quantized
      else if mode = Some (PStr ''int16'') then
        (case float_array A metadata ''bbox_min'' of
           Inl e \<Rightarrow> Inl e
         | Inr bbox_min \<Rightarrow>
             (case float_array A metadata ''bbox_max'' of
                Inl e \<Rightarrow> Inl e
              | Inr bbox_max \<Rightarrow>
                  (case quantized of
                     QStruct rs \<Rightarrow>
                       denormalize A bbox_min bbox_max 3
                         (map (\<lambda>r. [rec_x r, rec_y r, rec_z r]) rs)
                         (Some (map rec_intensity rs))
                   | QInt16 a \<Rightarrow> denormalize_plain A bbox_min bbox_max a
                   | QFloat32 a \<Rightarrow>
                       denormalize_plain A bbox_min bbox_max
                         \<lparr>shape = shape a, rows = map (map to_int16) (rows a)\<rparr>
                   | QFloat16 a \<Rightarrow>
                       denormalize_plain A bbox_min bbox_max
                         \<lparr>shape = shape a, rows = map (map astype_int16) (rows a)\<rparr>)))
      else Inl ValueError)"

text \<open>
  \<open>compute_quantization_error\<close>. The element-wise difference is taken over the
  flattened arrays. \<open>float()\<close> widens a binary32 result without rounding; the
  tolerance \<open>0.001\<close> is the binary64 number nearest to it.
\<close>

definition flatten :: "'a ndarray \<Rightarrow> 'a list" where
  "flatten a = concat (rows a)"

definition compute_quantization_error ::
  "np_arith \<Rightarrow> real ndarray \<Rightarrow> real ndarray \<Rightarrow> py_error + pydict" where
  "compute_quantization_error A original dequantized =
     (if shape original \<noteq> shape dequantized then Inl ValueError
      else
        let error = map2 (\<lambda>a b. \<bar>f32 A (a - b)\<bar>) (flatten original) (flatten dequantized)
        in case np_max error of
             Inl e \<Rightarrow> Inl e
           | Inr max_error \<Rightarrow>
               let mean_error = np_mean A error;
                   rmse = f32 A (sqrt (np_mean A (map (\<lambda>e. f32 A (e * e)) error)));
                   tolerance = f64 A 0.001;
                   within_tolerance = (max_error \<le> tolerance)
               in Inr (map_of [
                    (''max_error'', PFloat max_error),
                    (''mean_error'', PFloat mean_error),
                    (''rmse'', PFloat rmse),
                    (''within_tolerance_1mm'', PBool within_tolerance),
                    (''max_error_mm'', PFloat (f64 A (max_error * 1000)))]))"

section \<open>Frame ordering check (validators/validators.py)\<close>

text \<open>
  Modelled from the spec: \<open>validate_frame_ordering\<close> of validators/validators.py, which
  is not among the sources (only its tests are). The spec: frame ids, interpreted as the
  external system's ordering key, must be strictly increasing across the manifest's
  frame list; an empty frame list is itself a failure; any out-of-order pair produces an
  error naming the offending ids. The check returns a pair of the verdict and the list
  of errors, as the tests read it. How an id is read as an ordering key is not said, so
  the key is a parameter; the wording of the messages is the model's own.
\<close>

record frame =
  frame_id :: string

record manifest =
  frames :: "frame list"

definition ordering_error :: "string \<Rightarrow> string \<Rightarrow> string" where
  "ordering_error a b = ''Frame ordering violation: '' @ a @ '' is not before '' @ b"

definition validate_frame_ordering ::
  "(string \<Rightarrow> 'k::linorder) \<Rightarrow> manifest \<Rightarrow> bool \<times> string list" where
  "validate_frame_ordering key m =
     (let ids = map frame_id (frames m)
      in if ids = [] then (False, [''No frames in manifest''])
         else
           let errors = map (\<lambda>(a, b). ordering_error a b)
                          (filter (\<lambda>(a, b). \<not> key a < key b) (zip ids (tl ids)))
           in (errors = [], errors))"

text \<open>A key for running the check: the id read as a decimal number.\<close>

definition frame_number :: "string \<Rightarrow> nat" where
  "frame_number s = foldl (\<lambda>n c. 10 * n + (of_char c - 48)) 0 s"


section \<open>Properties of the downsampler\<close>

lemma tier_map_cases:
  "tier_map tier = Some n \<Longrightarrow> (tier = ''100k'' \<and> n = 100000) \<or> (tier = ''50k'' \<and> n = 50000)"
  by (auto simp: tier_map_def split: if_splits)

lemma wf_ndarray_shape0:
  "wf_ndarray a \<Longrightarrow> shape a ! 0 = length (rows a)"
  by (cases "shape a") (auto simp: wf_ndarray_def)

lemma wf_ndarray_shape_2d:
  assumes "wf_ndarray a" and "ndim a = 2"
  shows "shape a = [length (rows a), shape a ! 1]"
  using assms by (cases "shape a"; cases "tl (shape a)") (auto simp: wf_ndarray_def ndim_def)

lemma numpy_choice_contract_descending: "numpy_choice_contract descending_choice"
  by (auto simp: numpy_choice_contract_def descending_choice_def)

lemma wf_diagonal_cloud: "wf_ndarray (diagonal_cloud n)"
  by (simp add: wf_ndarray_def diagonal_cloud_def list_all_iff)

lemma nths_eq_map_filter:
  "nths xs I = map (\<lambda>i. xs ! i) (filter (\<lambda>i. i \<in> I) [0..<length xs])"
proof -
  have "zip xs [0..<length xs] = map (\<lambda>i. (xs ! i, i)) [0..<length xs]"
    by (rule nth_equalityI) auto
  then show ?thesis
    by (simp add: nths_def filter_map comp_def)
qed

lemma filter_upt_sorted:
  assumes "sorted ixs" and "distinct ixs" and "set ixs \<subseteq> {..<n}"
  shows "filter (\<lambda>i. i \<in> set ixs) [0..<n] = ixs"
proof (rule sorted_distinct_set_unique)
  show "sorted (filter (\<lambda>i. i \<in> set ixs) [0..<n])" by (simp add: sorted_wrt_filter)
  show "distinct (filter (\<lambda>i. i \<in> set ixs) [0..<n])" by simp
  show "sorted ixs" and "distinct ixs" by fact+
  show "set (filter (\<lambda>i. i \<in> set ixs) [0..<n]) = set ixs" using assms(3) by auto
qed

text \<open>Rows picked at ascending distinct indices are the rows at that index set, in input order.\<close>

lemma map_nth_sorted_eq_nths:
  assumes "sorted ixs" and "distinct ixs" and "set ixs \<subseteq> {..<length xs}"
  shows "map (\<lambda>i. xs ! i) ixs = nths xs (set ixs)"
  by (simp add: nths_eq_map_filter filter_upt_sorted[OF assms])

lemma take_rows_sorted:
  assumes "set ixs \<subseteq> {..<length (rows a)}"
  shows "take_rows a (sort ixs) =
     Inr \<lparr>shape = length ixs # tl (shape a), rows = map (\<lambda>i. rows a ! i) (sort ixs)\<rparr>"
  using assms by (auto simp: take_rows_def list_all_iff)

text \<open>The two paths of \<open>downsample_points\<close>, each with the value it returns.\<close>

lemma downsample_points_none_path:
  assumes "ndim p = 2" and "3 \<le> shape p ! 1"
    and "tier_map tier = Some target" and "shape p ! 0 \<le> target"
  shows "downsample_points rc p tier seed =
     Inr (p, map_of [
       (''method'', PStr ''none''),
       (''target_tier'', PStr tier),
       (''target_count'', PInt (int target)),
       (''original_count'', PInt (int (shape p ! 0))),
       (''final_count'', PInt (int (shape p ! 0))),
       (''reduction_ratio'', PFloat 1),
       (''within_spec'', PBool True),
       (''reason'', PStr ''original_count <= target_count'')])"
  using assms by (simp add: downsample_points_def Let_def)

lemma downsample_points_random_path:
  assumes "ndim p = 2" and "3 \<le> shape p ! 1"
    and "tier_map tier = Some target" and "target < shape p ! 0"
    and "rc seed (shape p ! 0) target = Inr ixs"
    and "set ixs \<subseteq> {..<length (rows p)}"
  shows "downsample_points rc p tier seed =
     Inr (\<lparr>shape = length ixs # tl (shape p), rows = map (\<lambda>i. rows p ! i) (sort ixs)\<rparr>,
       map_of [
         (''method'', PStr ''random''),
         (''target_tier'', PStr tier),
         (''target_count'', PInt (int target)),
         (''original_count'', PInt (int (shape p ! 0))),
         (''final_count'', PInt (int (length ixs))),
         (''reduction_ratio'', PFloat (real (length ixs) / real (shape p ! 0))),
         (''within_spec'',
            PBool (\<bar>real_of_int (int (length ixs) - int target)\<bar> \<le> 0.01 * real target)),
         (''tolerance_pct'', PFloat 1)])"
  using assms take_rows_sorted[OF assms(6)]
  by (simp add: downsample_points_def Let_def)

text \<open>
  C1. For a cloud of shape \<open>(N, w)\<close>, \<open>w \<ge> 3\<close>, with \<open>N\<close> above the target count of
  a recognised tier, \<open>downsample_points\<close> returns exactly \<open>target\<close> points (so at most
  \<open>N\<close>, and within 1 percent of the target). The rows are those at the drawn indices
  taken in ascending order: the output is the input restricted to the drawn index set,
  a subsequence of the input in input order.
\<close>

theorem downsample_points_above_target:
  assumes "numpy_choice_contract rc" and "0 \<le> seed"
    and "wf_ndarray p" and "ndim p = 2" and "3 \<le> shape p ! 1"
    and "tier_map tier = Some target" and "target < length (rows p)"
  shows "\<exists>ixs out md. downsample_points rc p tier seed = Inr (out, md) \<and>
           rc seed (length (rows p)) target = Inr ixs \<and>
           shape out = [target, shape p ! 1] \<and>
           length (rows out) = target \<and>
           length (rows out) \<le> length (rows p) \<and>
           \<bar>real (length (rows out)) - real target\<bar> \<le> 0.01 * real target \<and>
           sorted (sort ixs) \<and>
           rows out = map (\<lambda>i. rows p ! i) (sort ixs) \<and>
           rows out = nths (rows p) (set ixs) \<and>
           subseq (rows out) (rows p) \<and>
           md ''method'' = Some (PStr ''random'')"
proof -
  let ?n = "length (rows p)"
  have n: "shape p ! 0 = ?n" using assms(3) by (rule wf_ndarray_shape0)
  from assms(1,2,7) obtain ixs where ixs: "rc seed ?n target = Inr ixs"
    "length ixs = target" "distinct ixs" "set ixs \<subseteq> {..<?n}"
    unfolding numpy_choice_contract_def by (meson less_imp_le)
  let ?out = "\<lparr>shape = length ixs # tl (shape p), rows = map (\<lambda>i. rows p ! i) (sort ixs)\<rparr>"
  obtain md where md: "downsample_points rc p tier seed = Inr (?out, md)"
    "md ''method'' = Some (PStr ''random'')"
    using downsample_points_random_path[OF assms(4,5,6), of rc seed ixs] assms(7) ixs(1,4) n
    by simp
  have sh: "shape p = [?n, shape p ! 1]"
    using assms(3,4) by (rule wf_ndarray_shape_2d)
  have sel: "map (\<lambda>i. rows p ! i) (sort ixs) = nths (rows p) (set ixs)"
    using map_nth_sorted_eq_nths[of "sort ixs" "rows p"] ixs(3,4) by simp
  have "subseq (nths (rows p) (set ixs)) (rows p)"
    using subseq_conv_nths by blast
  then have sub: "subseq (rows ?out) (rows p)" using sel by simp
  have len: "length (rows ?out) = target" using ixs(2) by simp
  have shp: "shape ?out = [target, shape p ! 1]"
    using sh ixs(2) by (metis list.sel(3) ndarray.select_convs(1))
  have tol: "\<bar>real (length (rows ?out)) - real target\<bar> \<le> 0.01 * real target"
    unfolding len by simp
  have le: "length (rows ?out) \<le> length (rows p)"
    unfolding len using assms(7) by simp
  have srt: "sorted (sort ixs)" by simp
  have r1: "rows ?out = map (\<lambda>i. rows p ! i) (sort ixs)" by simp
  have r2: "rows ?out = nths (rows p) (set ixs)" using sel by simp
  from md(1) ixs(1) shp len le tol srt r1 r2 sub md(2) show ?thesis
    by blast
qed

theorem downsample_points_above_target_witness:
  "numpy_choice_contract descending_choice \<and> (0::int) \<le> 42 \<and>
   wf_ndarray (diagonal_cloud 50001) \<and> ndim (diagonal_cloud 50001) = 2 \<and>
   3 \<le> shape (diagonal_cloud 50001) ! 1 \<and> tier_map ''50k'' = Some 50000 \<and>
   50000 < length (rows (diagonal_cloud 50001)) \<and>
   (\<exists>out md. downsample_points descending_choice (diagonal_cloud 50001) ''50k'' 42 = Inr (out, md) \<and>
      shape out = [50000, 3] \<and>
      rows out = take 50000 (rows (diagonal_cloud 50001)))"
proof -
  have h1: "numpy_choice_contract descending_choice" by (rule numpy_choice_contract_descending)
  have h2: "(0::int) \<le> 42" by simp
  have h3: "wf_ndarray (diagonal_cloud 50001)" by (rule wf_diagonal_cloud)
  have h4: "ndim (diagonal_cloud 50001) = 2" by (simp add: ndim_def diagonal_cloud_def)
  have h5: "3 \<le> shape (diagonal_cloud 50001) ! 1" by (simp add: diagonal_cloud_def)
  have h6: "tier_map ''50k'' = Some 50000" by (simp add: tier_map_def)
  have h7: "50000 < length (rows (diagonal_cloud 50001))" by (simp add: diagonal_cloud_def)
  have dc: "descending_choice 42 (length (rows (diagonal_cloud 50001))) 50000 = Inr (rev [0..<50000])"
    by (simp add: descending_choice_def diagonal_cloud_def)
  have st: "set (rev [0..<50000]) = {..<50000::nat}" by auto
  from downsample_points_above_target[OF h1 h2 h3 h4 h5 h6 h7]
  obtain ixs out md where r:
    "downsample_points descending_choice (diagonal_cloud 50001) ''50k'' 42 = Inr (out, md)"
    "descending_choice 42 (length (rows (diagonal_cloud 50001))) 50000 = Inr ixs"
    "shape out = [50000, shape (diagonal_cloud 50001) ! 1]"
    "rows out = nths (rows (diagonal_cloud 50001)) (set ixs)"
    by blast
  from r(2) dc have "ixs = rev [0..<50000]" by simp
  with r(4) st have "rows out = take 50000 (rows (diagonal_cloud 50001))" by simp
  moreover from r(3) have "shape out = [50000, 3]" by (simp add: diagonal_cloud_def)
  ultimately show ?thesis using h1 h2 h3 h4 h5 h6 h7 r(1) by blast
qed

text \<open>
  C3. A cloud of shape \<open>(N, w)\<close>, \<open>w \<ge> 3\<close>, with \<open>N\<close> at most the target count of
  a recognised tier is returned as it is (the empty cloud included), and the metadata
  records method \<open>none\<close>, the reason string and \<open>within_spec = True\<close>.
\<close>

theorem downsample_points_at_or_below_target:
  assumes "wf_ndarray p" and "ndim p = 2" and "3 \<le> shape p ! 1"
    and "tier_map tier = Some target" and "length (rows p) \<le> target"
  shows "\<exists>md. downsample_points rc p tier seed = Inr (p, md) \<and>
           md ''method'' = Some (PStr ''none'') \<and>
           md ''reason'' = Some (PStr ''original_count <= target_count'') \<and>
           md ''within_spec'' = Some (PBool True) \<and>
           md ''final_count'' = Some (PInt (int (length (rows p))))"
proof -
  have "shape p ! 0 \<le> target"
    using assms(1,5) by (simp add: wf_ndarray_shape0)
  from downsample_points_none_path[OF assms(2,3,4) this, of rc seed] show ?thesis
    using assms(1) by (simp add: wf_ndarray_shape0)
qed

theorem downsample_points_at_or_below_target_witness:
  "wf_ndarray (diagonal_cloud 0) \<and> ndim (diagonal_cloud 0) = 2 \<and>
   3 \<le> shape (diagonal_cloud 0) ! 1 \<and> tier_map ''100k'' = Some 100000 \<and>
   length (rows (diagonal_cloud 0)) \<le> 100000 \<and>
   (\<exists>md. downsample_points descending_choice (diagonal_cloud 0) ''100k'' 42 =
            Inr (\<lparr>shape = [0, 3], rows = []\<rparr>, md) \<and>
         md ''method'' = Some (PStr ''none'') \<and>
         md ''reason'' = Some (PStr ''original_count <= target_count'') \<and>
         md ''within_spec'' = Some (PBool True) \<and>
         md ''final_count'' = Some (PInt 0))"
proof -
  have h1: "wf_ndarray (diagonal_cloud 0)" by (rule wf_diagonal_cloud)
  have h2: "ndim (diagonal_cloud 0) = 2" by (simp add: ndim_def diagonal_cloud_def)
  have h3: "3 \<le> shape (diagonal_cloud 0) ! 1" by (simp add: diagonal_cloud_def)
  have h4: "tier_map ''100k'' = Some 100000" by (simp add: tier_map_def)
  have h5: "length (rows (diagonal_cloud 0)) \<le> 100000" by (simp add: diagonal_cloud_def)
  have e: "diagonal_cloud 0 = \<lparr>shape = [0, 3], rows = []\<rparr>" by (simp add: diagonal_cloud_def)
  from downsample_points_at_or_below_target[OF h1 h2 h3 h4 h5, of descending_choice 42]
  show ?thesis using h1 h2 h3 h4 h5 unfolding e by simp
qed



text \<open>
  C10. On every valid input (a cloud of shape \<open>(N, w)\<close> with \<open>w \<ge> 3\<close>, a recognised
  tier, a seed numpy accepts) \<open>downsample_points\<close> returns, and the metadata it returns
  has \<open>within_spec = True\<close>: below the target unconditionally, above it because exactly
  \<open>target_count\<close> indices are drawn. More generally no call that returns at all yields
  \<open>within_spec = False\<close>.
\<close>

theorem downsample_points_within_spec:
  assumes "numpy_choice_contract rc"
  shows "(wf_ndarray p \<and> ndim p = 2 \<and> 3 \<le> shape p ! 1 \<and> tier_map tier \<noteq> None \<and> 0 \<le> seed
            \<longrightarrow> (\<exists>out md. downsample_points rc p tier seed = Inr (out, md))) \<and>
         (\<forall>out md. downsample_points rc p tier seed = Inr (out, md)
            \<longrightarrow> md ''within_spec'' = Some (PBool True))"
proof (intro conjI impI allI)
  assume v: "wf_ndarray p \<and> ndim p = 2 \<and> 3 \<le> shape p ! 1 \<and> tier_map tier \<noteq> None \<and> 0 \<le> seed"
  then obtain target where t: "tier_map tier = Some target" by auto
  show "\<exists>out md. downsample_points rc p tier seed = Inr (out, md)"
  proof (cases "shape p ! 0 \<le> target")
    case True
    from downsample_points_none_path[OF _ _ t True, of rc seed] v show ?thesis by simp
  next
    case False
    with v have "target \<le> length (rows p)" by (simp add: wf_ndarray_shape0)
    with assms v obtain ixs where ixs: "rc seed (length (rows p)) target = Inr ixs"
      "set ixs \<subseteq> {..<length (rows p)}"
      unfolding numpy_choice_contract_def by meson
    from v have n: "shape p ! 0 = length (rows p)" by (simp add: wf_ndarray_shape0)
    from downsample_points_random_path[OF _ _ t, of p rc seed ixs] v False ixs n
    show ?thesis by simp
  qed
next
  fix out md
  assume r: "downsample_points rc p tier seed = Inr (out, md)"
  then obtain target where t: "tier_map tier = Some target"
    by (auto simp: downsample_points_def split: option.splits)
  from r t have g: "ndim p = 2" "3 \<le> shape p ! 1"
    by (auto simp: downsample_points_def split: if_splits)
  show "md ''within_spec'' = Some (PBool True)"
  proof (cases "shape p ! 0 \<le> target")
    case True
    from downsample_points_none_path[OF g t True, of rc seed] r show ?thesis by auto
  next
    case False
    with r t g obtain ixs ds where ixs: "rc seed (shape p ! 0) target = Inr ixs"
      and ds: "take_rows p (sort ixs) = Inr ds"
      by (auto simp: downsample_points_def Let_def split: sum.splits)
    from assms ixs have len: "length ixs = target"
      unfolding numpy_choice_contract_def by blast
    from ds have "shape ds ! 0 = length ixs"
      by (auto simp: take_rows_def split: if_splits)
    with len r t g False ixs ds show ?thesis
      by (auto simp: downsample_points_def Let_def)
  qed
qed

theorem downsample_points_within_spec_witness:
  "numpy_choice_contract descending_choice \<and>
   (\<exists>out md. downsample_points descending_choice (diagonal_cloud 50001) ''50k'' 42 = Inr (out, md) \<and>
      md ''within_spec'' = Some (PBool True))"
proof -
  have h1: "numpy_choice_contract descending_choice" by (rule numpy_choice_contract_descending)
  have v: "wf_ndarray (diagonal_cloud 50001) \<and> ndim (diagonal_cloud 50001) = 2 \<and>
       3 \<le> shape (diagonal_cloud 50001) ! 1 \<and> tier_map ''50k'' \<noteq> None \<and> (0::int) \<le> 42"
    using wf_diagonal_cloud[of 50001] by (simp add: ndim_def diagonal_cloud_def tier_map_def)
  from downsample_points_within_spec[OF h1, of "diagonal_cloud 50001" "''50k''" 42] v h1
  show ?thesis by blast
qed

section \<open>Properties of the rounding\<close>

subsection \<open>Rounding to the nearest integer, ties to even\<close>

lemma round_half_even_of_int: "round_half_even (of_int n) = n"
  by (simp add: round_half_even_def)

lemma round_half_even_error: "\<bar>of_int (round_half_even q) - q\<bar> \<le> 1/2"
  unfolding round_half_even_def Let_def
  by (auto simp: abs_le_iff; linarith)

lemma round_half_even_mono:
  assumes "q \<le> q'" shows "round_half_even q \<le> round_half_even q'"
proof (cases "\<lfloor>q\<rfloor> = \<lfloor>q'\<rfloor>")
  case True
  with assms show ?thesis
    unfolding round_half_even_def Let_def by auto
next
  case False
  with assms have "\<lfloor>q\<rfloor> < \<lfloor>q'\<rfloor>" by (simp add: floor_mono order.strict_iff_order)
  then have "\<lfloor>q\<rfloor> + 1 \<le> \<lfloor>q'\<rfloor>" by simp
  moreover have "round_half_even q \<le> \<lfloor>q\<rfloor> + 1"
    unfolding round_half_even_def Let_def by auto
  moreover have "\<lfloor>q'\<rfloor> \<le> round_half_even q'"
    unfolding round_half_even_def Let_def by auto
  ultimately show ?thesis by linarith
qed

subsection \<open>Exponent and unit in the last place\<close>

lemma float_ulp_pos: "0 < float_ulp p emin x"
  by (simp add: float_ulp_def)

lemma pow2_add: "2 powr (of_int (a + b)) = 2 powr (of_int a) * (2 powr (of_int b) :: real)"
  by (simp add: powr_add)

lemma pow2_nat: "0 \<le> k \<Longrightarrow> (2::real) powr (of_int k) = of_int (2 ^ nat k)"
  by (simp add: powr_real_of_int)

lemma float_exponent_upper:
  assumes "x \<noteq> 0"
  shows "\<bar>x\<bar> < 2 powr (of_int (float_exponent emin x + 1))"
proof -
  have "\<bar>x\<bar> < 2 powr (of_int (\<lfloor>log 2 \<bar>x\<bar>\<rfloor> + 1))"
    using floor_log_eq_powr_iff[of "\<bar>x\<bar>" 2 "\<lfloor>log 2 \<bar>x\<bar>\<rfloor>"] assms by simp
  also have "\<dots> \<le> 2 powr (of_int (float_exponent emin x + 1))"
    by (simp add: float_exponent_def)
  finally show ?thesis .
qed

lemma float_exponent_le:
  assumes "\<bar>x\<bar> < 2 powr (of_int k)" and "emin < k" and "x \<noteq> 0"
  shows "float_exponent emin x \<le> k - 1"
proof -
  have "2 powr (of_int \<lfloor>log 2 \<bar>x\<bar>\<rfloor>) \<le> \<bar>x\<bar>"
    using floor_log_eq_powr_iff[of "\<bar>x\<bar>" 2 "\<lfloor>log 2 \<bar>x\<bar>\<rfloor>"] assms(3) by simp
  with assms(1) have "(2::real) powr (of_int \<lfloor>log 2 \<bar>x\<bar>\<rfloor>) < 2 powr (of_int k)" by linarith
  then have "\<lfloor>log 2 \<bar>x\<bar>\<rfloor> < k" by simp
  with assms(2) show ?thesis by (simp add: float_exponent_def)
qed

lemma float_exponent_eq:
  assumes "2 powr (of_int k) \<le> \<bar>x\<bar>" and "\<bar>x\<bar> < 2 powr (of_int k + 1)" and "emin \<le> k"
  shows "float_exponent emin x = k"
proof -
  have "0 < \<bar>x\<bar>" using assms(1) by (smt (verit) powr_gt_zero)
  then have "\<lfloor>log 2 \<bar>x\<bar>\<rfloor> = k"
    using floor_log_eq_powr_iff[of "\<bar>x\<bar>" 2 k] assms(1,2) by simp
  with assms(3) show ?thesis by (simp add: float_exponent_def)
qed

subsection \<open>Rounding error\<close>

lemma float_round_zero: "float_round p emin 0 = 0"
  by (simp add: float_round_def round_half_even_def)

lemma float_round_error: "\<bar>float_round p emin x - x\<bar> \<le> float_ulp p emin x / 2"
proof -
  let ?u = "float_ulp p emin x"
  let ?n = "real_of_int (round_half_even (x / ?u))"
  have u: "0 < ?u" by (rule float_ulp_pos)
  have "\<bar>?n - x / ?u\<bar> \<le> 1/2" by (rule round_half_even_error)
  then have "\<bar>?n - x / ?u\<bar> * \<bar>?u\<bar> \<le> 1/2 * ?u"
    using u by (simp add: mult_right_mono)
  moreover have "(?n - x / ?u) * ?u = ?n * ?u - x"
    using u by (simp add: left_diff_distrib)
  then have "\<bar>?n - x / ?u\<bar> * \<bar>?u\<bar> = \<bar>?n * ?u - x\<bar>"
    by (metis abs_mult)
  ultimately show ?thesis by (simp add: float_round_def)
qed

lemma float_ulp_le:
  assumes "\<bar>x\<bar> < 2 powr (of_int k)" and "emin < k" and "x \<noteq> 0"
  shows "float_ulp p emin x \<le> 2 powr (of_int (k - int p))"
  using float_exponent_le[OF assms] by (simp add: float_ulp_def)

lemma float_round_error_bound:
  assumes "\<bar>x\<bar> < 2 powr (of_int k)" and "emin < k"
  shows "\<bar>float_round p emin x - x\<bar> \<le> 2 powr (of_int (k - int p)) / 2"
proof (cases "x = 0")
  case True
  then show ?thesis by (simp add: float_round_zero)
next
  case False
  from float_round_error[of p emin x] float_ulp_le[OF assms False, of p] show ?thesis
    by linarith
qed

subsection \<open>Representable numbers are not changed\<close>

lemma float_round_representable:
  assumes "\<bar>m\<bar> < 2 ^ p" and "emin - int p + 1 \<le> e"
  shows "float_round p emin (of_int m * 2 powr (of_int e)) = of_int m * 2 powr (of_int e)"
proof (cases "m = 0")
  case True
  then show ?thesis by (simp add: float_round_zero)
next
  case False
  let ?x = "of_int m * 2 powr (of_int e) :: real"
  let ?E = "float_exponent emin ?x"
  have "\<bar>?x\<bar> = of_int \<bar>m\<bar> * 2 powr (of_int e)" by (simp add: abs_mult)
  also have "\<dots> < of_int (2 ^ p) * 2 powr (of_int e)"
    using assms(1) by (intro mult_strict_right_mono) (simp_all del: of_int_power)
  also have "\<dots> = 2 powr (of_int (int p + e))"
    by (simp add: powr_add powr_realpow)
  finally have lt: "\<bar>?x\<bar> < 2 powr (of_int (int p + e))" .
  have x0: "?x \<noteq> 0" using False by simp
  have "?E \<le> int p + e - 1"
    using float_exponent_le[OF lt _ x0] assms(2) by simp
  define k where "k = e - (?E - int p + 1)"
  with \<open>?E \<le> int p + e - 1\<close> have k: "0 \<le> k" by simp
  have u: "float_ulp p emin ?x = 2 powr (of_int (?E - int p + 1))" by (simp add: float_ulp_def)
  have "2 powr (of_int e) / float_ulp p emin ?x = (2::real) powr (of_int k)"
    unfolding u k_def by (simp add: powr_diff)
  also have "\<dots> = of_int (2 ^ nat k)" using k by (rule pow2_nat)
  finally have "of_int m * (2 powr (of_int e) / float_ulp p emin ?x)
      = of_int m * real_of_int (2 ^ nat k)"
    by (rule arg_cong)
  then have "?x / float_ulp p emin ?x = of_int m * of_int (2 ^ nat k)"
    by (simp only: times_divide_eq_right)
  then have q: "?x / float_ulp p emin ?x = of_int (m * 2 ^ nat k)"
    by simp
  have "float_round p emin ?x = of_int (m * 2 ^ nat k) * float_ulp p emin ?x"
    unfolding float_round_def q round_half_even_of_int ..
  also have "\<dots> = ?x" using q float_ulp_pos[of p emin ?x]
    by (metis nonzero_eq_divide_eq less_numeral_extra(3))
  finally show ?thesis .
qed

lemma float_round_of_int:
  assumes "\<bar>m\<bar> < 2 ^ p" and "emin - int p + 1 \<le> 0"
  shows "float_round p emin (of_int m) = of_int m"
  using float_round_representable[OF assms] by simp

subsection \<open>Underflow\<close>






subsection \<open>Overflow of binary16\<close>


subsection \<open>Symmetry, and the cast to binary16\<close>

lemma round_half_even_minus: "round_half_even (- q) = - round_half_even q"
proof (cases "q = of_int \<lfloor>q\<rfloor>")
  case True
  then obtain n where "q = of_int n" ..
  then have "- q = of_int (- n)" by simp
  then show ?thesis using \<open>q = of_int n\<close> by (simp only: round_half_even_of_int)
next
  case False
  then have f: "\<lfloor>- q\<rfloor> = - \<lfloor>q\<rfloor> - 1"
    by (simp add: floor_minus ceiling_altdef)
  have d: "0 < q - of_int \<lfloor>q\<rfloor>" using False by (smt (verit) of_int_floor_le)
  show ?thesis
    unfolding round_half_even_def Let_def f using d by auto
qed

lemma float_round_minus: "float_round p emin (- x) = - float_round p emin x"
proof -
  have u: "float_ulp p emin (- x) = float_ulp p emin x"
    by (simp add: float_ulp_def float_exponent_def)
  show ?thesis
    unfolding float_round_def u by (simp add: round_half_even_minus)
qed



lemma f32_of_int:
  "\<bar>m\<bar> < 2 ^ 24 \<Longrightarrow> f32 ieee_arith (of_int m) = of_int m"
  using float_round_of_int[of m 24 "-126"] by (simp add: ieee_arith_def)






subsection \<open>Representable form, idempotence, doubling\<close>

lemma round_half_even_zero: "round_half_even 0 = 0"
  using round_half_even_of_int[of 0] by simp

lemma float_round_nonneg: assumes "0 \<le> x" shows "0 \<le> float_round p emin x"
proof -
  have "0 \<le> x / float_ulp p emin x" using assms float_ulp_pos[of p emin x] by simp
  then have "round_half_even 0 \<le> round_half_even (x / float_ulp p emin x)"
    by (rule round_half_even_mono)
  then have "0 \<le> round_half_even (x / float_ulp p emin x)" by (simp add: round_half_even_zero)
  then show ?thesis
    using float_ulp_pos[of p emin x] by (simp add: float_round_def)
qed

lemma float_round_nonpos: assumes "x \<le> 0" shows "float_round p emin x \<le> 0"
  using float_round_nonneg[of "- x" p emin] assms by (simp add: float_round_minus)

lemma float_ulp_eq: "float_ulp p emin x = 2 powr (of_int (float_exponent emin x) - real p + 1)"
  by (simp add: float_ulp_def)

lemma pow2_int_nat: "(2::real) powr (real p) = of_int (2 ^ p)"
  by (simp add: powr_realpow)

lemma float_quotient_bound:
  assumes "x \<noteq> 0"
  shows "\<bar>x / float_ulp p emin x\<bar> < of_int (2 ^ p)"
proof -
  let ?E = "float_exponent emin x"
  have "\<bar>x\<bar> < 2 powr (of_int (?E + 1))" using assms by (rule float_exponent_upper)
  also have "(2::real) powr (of_int (?E + 1)) = 2 powr (real p) * float_ulp p emin x"
    by (simp add: float_ulp_eq powr_add[symmetric])
  finally have "\<bar>x\<bar> / float_ulp p emin x < 2 powr (real p)"
    using float_ulp_pos[of p emin x] by (simp add: pos_divide_less_eq)
  then show ?thesis
    using float_ulp_pos[of p emin x] by (simp add: pow2_int_nat abs_divide del: of_int_power)
qed

lemma round_half_even_abs_le:
  assumes "\<bar>q\<bar> \<le> of_int n" shows "\<bar>round_half_even q\<bar> \<le> n"
proof -
  have "round_half_even q \<le> round_half_even (of_int n)"
    using assms by (intro round_half_even_mono) linarith
  moreover have "round_half_even (of_int (- n)) \<le> round_half_even q"
  proof (rule round_half_even_mono)
    show "real_of_int (- n) \<le> q" using assms by (simp add: abs_le_iff)
  qed
  ultimately have "round_half_even q \<le> n" "- n \<le> round_half_even q"
    by (simp_all only: round_half_even_of_int)
  then show ?thesis by linarith
qed

lemma float_round_representable_form:
  assumes "0 < p"
  shows "\<exists>m e. float_round p emin x = of_int m * 2 powr (of_int e) \<and>
           \<bar>m\<bar> < 2 ^ p \<and> emin - int p + 1 \<le> e"
proof (cases "x = 0")
  case True
  have "float_round p emin x = of_int 0 * 2 powr (of_int (emin - int p + 1))"
    using True by (simp add: float_round_zero)
  then show ?thesis by (metis abs_zero zero_less_numeral zero_less_power order_refl)
next
  case False
  let ?E = "float_exponent emin x"
  let ?u = "float_ulp p emin x"
  let ?n = "round_half_even (x / ?u)"
  have E: "emin \<le> ?E" by (simp add: float_exponent_def)
  have "\<bar>x / ?u\<bar> \<le> of_int (2 ^ p)" using float_quotient_bound[OF False, of p emin] by simp
  then have n: "\<bar>?n\<bar> \<le> 2 ^ p" by (rule round_half_even_abs_le)
  have u: "?u = 2 powr (of_int (?E - int p + 1))" by (simp add: float_ulp_def)
  show ?thesis
  proof (cases "\<bar>?n\<bar> < 2 ^ p")
    case True
    have "float_round p emin x = of_int ?n * 2 powr (of_int (?E - int p + 1))"
      unfolding u[symmetric] by (simp add: float_round_def)
    with True E show ?thesis by (metis add_le_cancel_right diff_right_mono)
  next
    case False
    with n have eq: "\<bar>?n\<bar> = 2 ^ p" by simp
    define m :: int where "m = (if 0 \<le> ?n then 2 ^ (p - 1) else - (2 ^ (p - 1)))"
    have pp: "(2::int) ^ p = 2 * 2 ^ (p - 1)" using assms by (cases p) simp_all
    have nm: "?n = 2 * m" using eq pp by (auto simp: m_def abs_if split: if_splits)
    have "(2::real) powr (of_int (?E - int p + 2)) = 2 * 2 powr (of_int (?E - int p + 1))"
      using pow2_add[of 1 "?E - int p + 1"] by (simp add: add.commute)
    then have "float_round p emin x = of_int m * 2 powr (of_int (?E - int p + 2))"
      unfolding u[symmetric] by (simp add: float_round_def nm)
    moreover have "\<bar>m\<bar> < 2 ^ p" using pp by (simp add: m_def)
    moreover have "emin - int p + 1 \<le> ?E - int p + 2" using E by simp
    ultimately show ?thesis by blast
  qed
qed

lemma float_round_idem:
  assumes "0 < p"
  shows "float_round p emin (float_round p emin x) = float_round p emin x"
proof -
  from float_round_representable_form[OF assms, of emin x] obtain m e where
    "float_round p emin x = of_int m * 2 powr (of_int e)" "\<bar>m\<bar> < 2 ^ p" "emin - int p + 1 \<le> e"
    by blast
  then show ?thesis using float_round_representable[of m p emin e] by simp
qed

lemma float_round_double:
  assumes "0 < p"
  shows "float_round p emin (2 * float_round p emin x) = 2 * float_round p emin x"
proof -
  from float_round_representable_form[OF assms, of emin x] obtain m e where
    me: "float_round p emin x = of_int m * 2 powr (of_int e)" "\<bar>m\<bar> < 2 ^ p" "emin - int p + 1 \<le> e"
    by blast
  have "(2::real) powr (of_int (e + 1)) = 2 * 2 powr (of_int e)"
    using pow2_add[of 1 e] by (simp add: add.commute)
  then have "2 * float_round p emin x = of_int m * 2 powr (of_int (e + 1))"
    using me(1) by simp
  moreover have "float_round p emin (of_int m * 2 powr (of_int (e + 1))) = of_int m * 2 powr (of_int (e + 1))"
    using me(2,3) by (intro float_round_representable) simp_all
  ultimately show ?thesis by simp
qed

subsection \<open>Monotonicity\<close>

lemma float_exponent_mono_pos:
  assumes "0 < x" and "x \<le> y"
  shows "float_exponent emin x \<le> float_exponent emin y"
proof -
  have "log 2 \<bar>x\<bar> \<le> log 2 \<bar>y\<bar>" using assms by simp
  then have "\<lfloor>log 2 \<bar>x\<bar>\<rfloor> \<le> \<lfloor>log 2 \<bar>y\<bar>\<rfloor>" by (rule floor_mono)
  then show ?thesis by (simp add: float_exponent_def)
qed

lemma float_round_le_binade_top:
  assumes "0 < x"
  shows "float_round p emin x \<le> 2 powr (of_int (float_exponent emin x + 1))"
proof -
  let ?u = "float_ulp p emin x"
  have "\<bar>x / ?u\<bar> < of_int (2 ^ p)"
    using float_quotient_bound[of x p emin] assms by simp
  then have "x / ?u \<le> of_int (2 ^ p)" by linarith
  then have "round_half_even (x / ?u) \<le> round_half_even (of_int (2 ^ p))"
    by (rule round_half_even_mono)
  then have "round_half_even (x / ?u) \<le> 2 ^ p" by (simp only: round_half_even_of_int)
  then have "real_of_int (round_half_even (x / ?u)) \<le> of_int (2 ^ p)" by linarith
  then have "float_round p emin x \<le> of_int (2 ^ p) * ?u"
    unfolding float_round_def using float_ulp_pos[of p emin x] by (simp add: mult_right_mono)
  also have "of_int (2 ^ p) * ?u = 2 powr (real p) * ?u" by (simp only: pow2_int_nat)
  also have "\<dots> = 2 powr (of_int (float_exponent emin x + 1))"
    by (simp add: float_ulp_eq powr_add[symmetric])
  finally show ?thesis .
qed

lemma float_round_ge_binade_bottom:
  assumes "0 < y" and "emin < float_exponent emin y" and "0 < p"
  shows "2 powr (of_int (float_exponent emin y)) \<le> float_round p emin y"
proof -
  let ?E = "float_exponent emin y"
  let ?u = "float_ulp p emin y"
  have E: "?E = \<lfloor>log 2 \<bar>y\<bar>\<rfloor>" using assms(2) by (simp add: float_exponent_def max_def split: if_splits)
  have low: "2 powr (of_int ?E) \<le> y"
    using floor_log_eq_powr_iff[of "\<bar>y\<bar>" 2 "\<lfloor>log 2 \<bar>y\<bar>\<rfloor>"] assms(1) unfolding E by simp
  have split: "(2::real) powr (of_int ?E) = 2 powr (real (p - 1)) * ?u"
    using assms(3) by (simp add: float_ulp_eq powr_add[symmetric] of_nat_diff)
  have "2 powr (real (p - 1)) * ?u \<le> y" using low split by simp
  then have "2 powr (real (p - 1)) \<le> y / ?u"
    using float_ulp_pos[of p emin y] by (simp add: pos_le_divide_eq)
  then have "of_int (2 ^ (p - 1)) \<le> y / ?u" by (simp only: pow2_int_nat)
  then have "round_half_even (of_int (2 ^ (p - 1))) \<le> round_half_even (y / ?u)"
    by (rule round_half_even_mono)
  then have "2 ^ (p - 1) \<le> round_half_even (y / ?u)" by (simp only: round_half_even_of_int)
  then have "real_of_int (2 ^ (p - 1)) \<le> of_int (round_half_even (y / ?u))" by linarith
  then have "of_int (2 ^ (p - 1)) * ?u \<le> float_round p emin y"
    unfolding float_round_def using float_ulp_pos[of p emin y] by (simp add: mult_right_mono)
  then show ?thesis unfolding split by (simp only: pow2_int_nat)
qed

lemma float_round_mono_pos:
  assumes "0 < x" and "x \<le> y" and "0 < p"
  shows "float_round p emin x \<le> float_round p emin y"
proof (cases "float_exponent emin x = float_exponent emin y")
  case True
  then have u: "float_ulp p emin x = float_ulp p emin y" by (simp add: float_ulp_def)
  have "x / float_ulp p emin y \<le> y / float_ulp p emin y"
    using assms(2) float_ulp_pos[of p emin y] by (simp add: divide_right_mono)
  then have "round_half_even (x / float_ulp p emin y) \<le> round_half_even (y / float_ulp p emin y)"
    by (rule round_half_even_mono)
  then have "real_of_int (round_half_even (x / float_ulp p emin y))
      \<le> real_of_int (round_half_even (y / float_ulp p emin y))" by linarith
  then show ?thesis
    unfolding float_round_def u using float_ulp_pos[of p emin y] by (simp add: mult_right_mono)
next
  case False
  with float_exponent_mono_pos[OF assms(1,2), of emin]
  have lt: "float_exponent emin x < float_exponent emin y" by simp
  have "emin \<le> float_exponent emin x" by (simp add: float_exponent_def)
  with lt have "emin < float_exponent emin y" by simp
  with assms have b: "2 powr (of_int (float_exponent emin y)) \<le> float_round p emin y"
    by (intro float_round_ge_binade_bottom) simp_all
  have "float_round p emin x \<le> 2 powr (of_int (float_exponent emin x + 1))"
    using assms(1) by (rule float_round_le_binade_top)
  also have "\<dots> \<le> 2 powr (of_int (float_exponent emin y))"
    using lt by simp
  finally show ?thesis using b by linarith
qed

lemma float_round_mono:
  assumes "x \<le> y" and "0 < p"
  shows "float_round p emin x \<le> float_round p emin y"
proof -
  consider "0 < x" | "x \<le> 0" "0 \<le> y" | "y < 0" by linarith
  then show ?thesis
  proof cases
    case 1
    then show ?thesis using assms by (rule float_round_mono_pos)
  next
    case 2
    then show ?thesis
      using float_round_nonpos[of x p emin] float_round_nonneg[of y p emin] by linarith
  next
    case 3
    then have "0 < - y" "- y \<le> - x" using assms(1) by simp_all
    then have "float_round p emin (- y) \<le> float_round p emin (- x)"
      using assms(2) by (rule float_round_mono_pos)
    then show ?thesis by (simp add: float_round_minus)
  qed
qed

subsection \<open>Facts about binary32\<close>

lemma f32_ieee: "f32 ieee_arith = float_round 24 (-126)"
  by (simp add: ieee_arith_def)

lemma f32_mono: "x \<le> y \<Longrightarrow> f32 ieee_arith x \<le> f32 ieee_arith y"
  unfolding f32_ieee by (rule float_round_mono) simp_all

lemma f32_idem: "f32 ieee_arith (f32 ieee_arith x) = f32 ieee_arith x"
  unfolding f32_ieee by (rule float_round_idem) simp

lemma f32_double: "f32 ieee_arith (2 * f32 ieee_arith x) = 2 * f32 ieee_arith x"
  unfolding f32_ieee by (rule float_round_double) simp

lemma f32_error:
  assumes "\<bar>x\<bar> < 2 powr (of_int k)" and "- 126 < k"
  shows "\<bar>f32 ieee_arith x - x\<bar> \<le> 2 powr (of_int (k - 25))"
proof -
  have "(2::real) powr (of_int (k - 24)) / 2 = 2 powr (of_int (k - 25))"
    using pow2_add[of "k - 25" 1] by simp
  then show ?thesis
    unfolding f32_ieee using float_round_error_bound[OF assms, of 24] by simp
qed

lemma f32_range:
  assumes "of_int lo \<le> x" and "x \<le> of_int hi" and "\<bar>lo\<bar> < 2 ^ 24" and "\<bar>hi\<bar> < 2 ^ 24"
  shows "of_int lo \<le> f32 ieee_arith x \<and> f32 ieee_arith x \<le> of_int hi"
  using f32_mono[OF assms(1)] f32_mono[OF assms(2)] f32_of_int[OF assms(3)] f32_of_int[OF assms(4)]
  by simp

subsection \<open>Conversions to 16-bit integers\<close>

lemma sint_to_int16:
  assumes "- 32768 \<le> trunc e" and "trunc e < 32768"
  shows "sint (to_int16 e) = trunc e"
  unfolding to_int16_def using assms
  by (simp add: signed_of_int signed_take_bit_int_eq_self)

lemma unat_to_uint16:
  assumes "0 \<le> trunc e" and "trunc e < 65536"
  shows "unat (to_uint16 e) = nat (trunc e)"
  unfolding to_uint16_def using assms
  by (simp add: unsigned_of_int take_bit_int_eq_self)

lemma trunc_error: "\<bar>real_of_int (trunc x) - x\<bar> \<le> 1"
  unfolding trunc_def by (auto simp: abs_le_iff; linarith)

lemma trunc_bounds:
  assumes "of_int lo \<le> x" and "x \<le> of_int hi" and "lo \<le> 0" and "0 \<le> hi"
  shows "lo \<le> trunc x \<and> trunc x \<le> hi"
  unfolding trunc_def using assms
  by (auto simp: le_floor_iff floor_le_iff  ceiling_le_iff le_ceiling_iff; linarith)


section \<open>Properties of the quantizer\<close>

lemma unit_if_zero_nonzero: "0 \<notin> set (unit_if_zero ds)"
  by (auto simp: unit_if_zero_def)

lemma unit_if_zero_no_zero_entry: "\<not> list_ex (\<lambda>d. d = 0) (unit_if_zero ds)"
  using unit_if_zero_nonzero[of ds] by (auto simp: list_ex_iff)

lemma np_min_nonempty: "xs \<noteq> [] \<Longrightarrow> \<exists>m. np_min xs = Inr m"
  by (cases xs) (auto simp: np_min_def)

lemma np_max_nonempty: "xs \<noteq> [] \<Longrightarrow> \<exists>m. np_max xs = Inr m"
  by (cases xs) (auto simp: np_max_def)

lemma np_min_not_other: "np_min xs = Inl e \<Longrightarrow> e = ValueError"
  by (cases xs) (auto simp: np_min_def)

lemma np_max_not_other: "np_max xs = Inl e \<Longrightarrow> e = ValueError"
  by (cases xs) (auto simp: np_max_def)

lemma quantize_int16_no_division_by_zero:
  "quantize_int16 A p \<noteq> Inl FloatingPointError"
  unfolding quantize_int16_def Let_def
  by (simp add: unit_if_zero_no_zero_entry split: sum.splits prod.splits)

lemma quantize_int16_returns:
  assumes "ndim p = 2" and "3 \<le> shape p ! 1" and "rows p \<noteq> []"
  shows "\<exists>q md. quantize_int16 A p = Inr (q, md)"
proof -
  let ?xyz = "map (take 3) (map (map (f32 A)) (rows p))"
  have ne: "column ?xyz k \<noteq> []" for k using assms(3) by (simp add: column_def)
  obtain a0 a1 a2 b0 b1 b2 where m:
    "np_min (column ?xyz 0) = Inr a0" "np_min (column ?xyz 1) = Inr a1"
    "np_min (column ?xyz 2) = Inr a2" "np_max (column ?xyz 0) = Inr b0"
    "np_max (column ?xyz 1) = Inr b1" "np_max (column ?xyz 2) = Inr b2"
    using np_min_nonempty[OF ne] np_max_nonempty[OF ne] by metis
  show ?thesis
    unfolding quantize_int16_def Let_def
    using assms(1,2) m by (simp add: unit_if_zero_no_zero_entry)
qed


text \<open>
  C4. \<open>quantize_int16\<close> raises \<open>ValueError\<close> for every array with fewer than three
  columns. It never divides by zero: the divisor is the bounding-box extent after
  \<open>unit_if_zero\<close>, which puts 1 in the place of every zero extent and leaves the other
  extents as they are. With three columns or more and at least one point it returns.
\<close>

theorem quantize_int16_width_and_division:
  "(2 \<le> ndim p \<and> shape p ! 1 < 3 \<longrightarrow> quantize_int16 A p = Inl ValueError) \<and>
   quantize_int16 A p \<noteq> Inl FloatingPointError \<and>
   0 \<notin> set (unit_if_zero ds) \<and>
   length (unit_if_zero ds) = length ds \<and>
   (\<forall>k < length ds. unit_if_zero ds ! k = (if ds ! k = 0 then 1 else ds ! k)) \<and>
   (ndim p = 2 \<and> 3 \<le> shape p ! 1 \<and> rows p \<noteq> [] \<longrightarrow>
      (\<exists>q md. quantize_int16 A p = Inr (q, md)))"
  using quantize_int16_no_division_by_zero[of A p] unit_if_zero_nonzero[of ds]
    quantize_int16_returns[of p A]
  by (auto simp: quantize_int16_def unit_if_zero_def)

theorem quantize_int16_width_and_division_witness:
  "2 \<le> ndim \<lparr>shape = [2, 2], rows = [[0, 0], [1, 1::real]]\<rparr> \<and>
   shape \<lparr>shape = [2, 2], rows = [[0, 0], [1, 1::real]]\<rparr> ! 1 < 3 \<and>
   quantize_int16 ieee_arith \<lparr>shape = [2, 2], rows = [[0, 0], [1, 1]]\<rparr> = Inl ValueError \<and>
   unit_if_zero [0, 5, 0] = [1, 5, 1] \<and> 0 \<notin> set (unit_if_zero [0, 5, 0])"
proof -
  have h: "2 \<le> ndim \<lparr>shape = [2, 2], rows = [[0, 0], [1, 1::real]]\<rparr> \<and>
      shape \<lparr>shape = [2, 2], rows = [[0, 0], [1, 1::real]]\<rparr> ! 1 < 3"
    by (simp add: ndim_def)
  have u: "unit_if_zero [0, 5, 0] = [1, 5, 1]" by (simp add: unit_if_zero_def)
  from quantize_int16_width_and_division
    [of "\<lparr>shape = [2, 2], rows = [[0, 0], [1, 1]]\<rparr>" ieee_arith "[0, 5, 0]"] h u
  show ?thesis by simp
qed

text \<open>
  C9. The float16 envelope records 8 bytes per point whatever the width of the cloud:
  for a cloud of width 3, whose points take 6 bytes in float16 (half of the 12 bytes of
  three float32 coordinates), it still records 8. The compression factor is 0.5.
\<close>

theorem quantize_fp16_bytes_per_point_width3:
  "snd (quantize_fp16 A \<lparr>shape = [1, 3], rows = [[1, 2, 3]]\<rparr>) ''bytes_per_point'' = Some (PInt 8) \<and>
   snd (quantize_fp16 A \<lparr>shape = [1, 3], rows = [[1, 2, 3]]\<rparr>) ''compression'' = Some (PFloat 0.5) \<and>
   (8::int) \<noteq> 2 * 3"
  by (simp add: quantize_fp16_def Let_def)




subsection \<open>The error metric\<close>

lemma np_max_eq_Max: "xs \<noteq> [] \<Longrightarrow> np_max xs = Inr (Max (set xs))"
proof (cases xs)
  case (Cons x ys)
  have "fold max ys x = Max (set (x # ys))" by (rule Max.set_eq_fold[symmetric])
  then show ?thesis unfolding Cons np_max_def by (simp only: list.case)
qed simp


lemma foldl_plus_sum_list: "foldl (\<lambda>s x. s + x) a xs = a + sum_list (xs :: real list)"
  by (induction xs arbitrary: a) simp_all

lemma np_sum_exact: "np_sum exact_arith xs = sum_list xs"
  by (simp add: np_sum_def exact_arith_def foldl_plus_sum_list)

lemma np_mean_exact: "np_mean exact_arith xs = sum_list xs / real (length xs)"
  by (simp add: np_mean_def np_sum_exact) (simp add: exact_arith_def)

lemma sum_list_square_deviation:
  "sum_list (map (\<lambda>x. (x - m)\<^sup>2) xs) =
     sum_list (map (\<lambda>x. x\<^sup>2) xs) - 2 * m * sum_list xs + real (length xs) * m\<^sup>2"
  by (induction xs) (simp_all add: power2_diff algebra_simps)

lemma mean_square_ge_square_mean:
  assumes "xs \<noteq> []"
  shows "(sum_list xs / real (length xs))\<^sup>2 \<le> sum_list (map (\<lambda>x. x\<^sup>2) xs) / real (length xs)"
proof -
  let ?n = "real (length xs)"
  let ?m = "sum_list xs / ?n"
  have n: "0 < ?n" using assms by simp
  have "0 \<le> sum_list (map (\<lambda>x. (x - ?m)\<^sup>2) xs)"
    by (rule sum_list_nonneg) auto
  also have "\<dots> = sum_list (map (\<lambda>x. x\<^sup>2) xs) - 2 * ?m * sum_list xs + ?n * ?m\<^sup>2"
    by (rule sum_list_square_deviation)
  also have "sum_list xs = ?n * ?m" using n by simp
  then have "sum_list (map (\<lambda>x. x\<^sup>2) xs) - 2 * ?m * sum_list xs + ?n * ?m\<^sup>2
      = sum_list (map (\<lambda>x. x\<^sup>2) xs) - ?n * ?m\<^sup>2"
    by (simp add: power2_eq_square algebra_simps)
  finally have "?n * ?m\<^sup>2 \<le> sum_list (map (\<lambda>x. x\<^sup>2) xs)" by simp
  then show ?thesis using n by (simp add: pos_le_divide_eq mult.commute)
qed

lemma mean_le_rms:
  assumes "xs \<noteq> []"
  shows "sum_list xs / real (length xs) \<le> sqrt (sum_list (map (\<lambda>x. x * x) xs) / real (length xs))"
proof -
  let ?m = "sum_list xs / real (length xs)"
  have "?m \<le> \<bar>?m\<bar>" by (rule abs_ge_self)
  also have "\<dots> = sqrt (?m\<^sup>2)" by simp
  also have "\<dots> \<le> sqrt (sum_list (map (\<lambda>x. x\<^sup>2) xs) / real (length xs))"
    using mean_square_ge_square_mean[OF assms] by (rule real_sqrt_le_mono)
  finally show ?thesis by (simp add: power2_eq_square)
qed

lemma rms_le_max:
  assumes "xs \<noteq> []" and "\<forall>x\<in>set xs. 0 \<le> x"
  shows "sqrt (sum_list (map (\<lambda>x. x * x) xs) / real (length xs)) \<le> Max (set xs)"
proof -
  let ?M = "Max (set xs)"
  have M0: "0 \<le> ?M"
    using assms by (metis List.finite_set Max_ge hd_in_set order_trans)
  have "sum_list (map (\<lambda>x. x * x) xs) \<le> sum_list (map (\<lambda>x. ?M * ?M) xs)"
  proof (rule sum_list_mono)
    fix x assume "x \<in> set xs"
    then have "x \<le> ?M" "0 \<le> x" using assms(2) by simp_all
    then show "x * x \<le> ?M * ?M" by (simp add: mult_mono)
  qed
  also have "\<dots> = real (length xs) * (?M * ?M)"
    by (simp add: sum_list_triv)
  finally have "sum_list (map (\<lambda>x. x * x) xs) / real (length xs) \<le> ?M * ?M"
    using assms(1) by (simp add: pos_divide_le_eq mult.commute)
  then have "sqrt (sum_list (map (\<lambda>x. x * x) xs) / real (length xs)) \<le> sqrt (?M * ?M)"
    by (rule real_sqrt_le_mono)
  then show ?thesis using M0 by simp
qed

lemma error_list_nonempty:
  "map2 f xs ys \<noteq> [] \<longleftrightarrow> xs \<noteq> [] \<and> ys \<noteq> []"
  by (cases xs; cases ys) simp_all

lemma compute_quantization_error_returns:
  assumes "shape a = shape b"
    and "np_max (map2 (\<lambda>a b. \<bar>f32 A (a - b)\<bar>) (flatten a) (flatten b)) = Inr m"
  shows "compute_quantization_error A a b = Inr (map_of [
           (''max_error'', PFloat m),
           (''mean_error'',
              PFloat (np_mean A (map2 (\<lambda>a b. \<bar>f32 A (a - b)\<bar>) (flatten a) (flatten b)))),
           (''rmse'', PFloat (f32 A (sqrt (np_mean A (map (\<lambda>e. f32 A (e * e))
              (map2 (\<lambda>a b. \<bar>f32 A (a - b)\<bar>) (flatten a) (flatten b))))))),
           (''within_tolerance_1mm'', PBool (m \<le> f64 A 0.001)),
           (''max_error_mm'', PFloat (f64 A (m * 1000)))])"
  unfolding compute_quantization_error_def Let_def using assms(1)
  by (simp only: assms(2) sum.case if_False not_not simp_thms)

lemma abs_errors_nonneg: "\<forall>x\<in>set (map2 (\<lambda>a b. \<bar>f (a - b)\<bar>) xs ys). (0::real) \<le> x"
  by (auto simp: set_zip)

lemma exact_chain:
  assumes "es \<noteq> []" and "\<forall>x\<in>set es. 0 \<le> x"
  shows "np_mean exact_arith es \<le> f32 exact_arith (sqrt (np_mean exact_arith (map (\<lambda>e. f32 exact_arith (e * e)) es)))"
    and "f32 exact_arith (sqrt (np_mean exact_arith (map (\<lambda>e. f32 exact_arith (e * e)) es))) \<le> Max (set es)"
proof -
  have i: "f32 exact_arith = (\<lambda>x. x)" by (simp add: exact_arith_def)
  show "np_mean exact_arith es \<le> f32 exact_arith (sqrt (np_mean exact_arith (map (\<lambda>e. f32 exact_arith (e * e)) es)))"
    unfolding i np_mean_exact using mean_le_rms[OF assms(1)] by simp
  show "f32 exact_arith (sqrt (np_mean exact_arith (map (\<lambda>e. f32 exact_arith (e * e)) es))) \<le> Max (set es)"
    unfolding i np_mean_exact using rms_le_max[OF assms] by simp
qed









section \<open>The round trip through quantization\<close>

subsection \<open>One coordinate through the integer encoding\<close>

lemma f32_error_num:
  "\<bar>x\<bar> \<le> 1 \<Longrightarrow> \<bar>f32 ieee_arith x - x\<bar> \<le> 1 / 2 ^ 24"
  "\<bar>x\<bar> \<le> 2 \<Longrightarrow> \<bar>f32 ieee_arith x - x\<bar> \<le> 1 / 2 ^ 23"
  "\<bar>x\<bar> \<le> 100 \<Longrightarrow> \<bar>f32 ieee_arith x - x\<bar> \<le> 1 / 2 ^ 18"
  "\<bar>x\<bar> \<le> 200 \<Longrightarrow> \<bar>f32 ieee_arith x - x\<bar> \<le> 1 / 2 ^ 17"
  "\<bar>x\<bar> \<le> 300 \<Longrightarrow> \<bar>f32 ieee_arith x - x\<bar> \<le> 1 / 2 ^ 16"
  "\<bar>x\<bar> \<le> 32767 \<Longrightarrow> \<bar>f32 ieee_arith x - x\<bar> \<le> 1 / 2 ^ 10"
  "\<bar>x\<bar> \<le> 65535 \<Longrightarrow> \<bar>f32 ieee_arith x - x\<bar> \<le> 1 / 2 ^ 9"
  using f32_error[of x 1] f32_error[of x 2] f32_error[of x 7] f32_error[of x 8]
    f32_error[of x 9] f32_error[of x 15] f32_error[of x 16]
  by (simp_all add: powr_minus_divide)

lemma abs_sum6:
  fixes a b c d e f :: real
  assumes "\<bar>a\<bar> \<le> A" "\<bar>b\<bar> \<le> B" "\<bar>c\<bar> \<le> C" "\<bar>d\<bar> \<le> D" "\<bar>e\<bar> \<le> E" "\<bar>f\<bar> \<le> F"
  shows "\<bar>a + b + c + d + e + f\<bar> \<le> A + B + C + D + E + F"
  using assms by linarith

lemma abs_sum4:
  fixes a b c d :: real
  assumes "\<bar>a\<bar> \<le> A" "\<bar>b\<bar> \<le> B" "\<bar>c\<bar> \<le> C" "\<bar>d\<bar> \<le> D"
  shows "\<bar>a + b + c + d\<bar> \<le> A + B + C + D"
  using assms by linarith

lemma abs_sum2:
  fixes a b :: real
  assumes "\<bar>a\<bar> \<le> A" "\<bar>b\<bar> \<le> B"
  shows "\<bar>a + b\<bar> \<le> A + B"
  using assms by linarith

lemma int16_coordinate_roundtrip:
  fixes y m M r :: real
  assumes "m \<le> y" and "y \<le> M" and "- 100 \<le> m" and "M \<le> 100"
    and r: "r = (if f32 ieee_arith (M - m) = 0 then 1 else f32 ieee_arith (M - m))"
    and e: "e = f32 ieee_arith (f32 ieee_arith (f32 ieee_arith
                  (f32 ieee_arith (2 * f32 ieee_arith (y - m)) / r) - 1) * 32767)"
  shows "- 32767 \<le> trunc e \<and> trunc e \<le> 32767 \<and>
         \<bar>f32 ieee_arith (f32 ieee_arith (f32 ieee_arith (f32 ieee_arith
            (f32 ieee_arith (real_of_int (trunc e) / 32767) + 1) / 2) * r) + m) - y\<bar> \<le> 32 / 10000"
proof -
  let ?fl = "f32 ieee_arith"
  define r0 where "r0 = ?fl (M - m)"
  define a where "a = ?fl (y - m)"
  have r0_range: "0 \<le> r0" "r0 \<le> 200"
    using f32_range[of 0 "M - m" 200] assms(1-4) by (simp_all add: r0_def)
  have a0: "0 \<le> a" using f32_range[of 0 "y - m" 200] assms(1-4) by (simp add: a_def)
  have a_le: "a \<le> r0" unfolding a_def r0_def using assms(2) by (intro f32_mono) simp
  have a_err: "\<bar>a - (y - m)\<bar> \<le> 1 / 2 ^ 17"
    unfolding a_def using assms(1-4) by (intro f32_error_num(4)) simp
  have b: "?fl (2 * a) = 2 * a" unfolding a_def by (rule f32_double)
  have rr: "r = (if r0 = 0 then 1 else r0)" using r by (simp add: r0_def)
  have rpos: "0 < r" "r \<le> 200" using r0_range by (auto simp: rr)
  have ar: "a \<le> r" using a_le a0 r0_range by (auto simp: rr)
  define t where "t = 2 * a / r"
  have t_range: "0 \<le> t" "t \<le> 2"
    using a0 ar rpos by (simp_all add: t_def pos_divide_le_eq)
  define c where "c = ?fl t"
  have c_range: "0 \<le> c" "c \<le> 2" using f32_range[of 0 t 2] t_range by (simp_all add: c_def)
  have c_err: "\<bar>c - t\<bar> \<le> 1 / 2 ^ 23" unfolding c_def using t_range by (intro f32_error_num(2)) simp
  define d where "d = ?fl (c - 1)"
  have d_range: "- 1 \<le> d" "d \<le> 1" using f32_range[of "-1" "c - 1" 1] c_range by (simp_all add: d_def)
  have d_err: "\<bar>d - (c - 1)\<bar> \<le> 1 / 2 ^ 24" unfolding d_def using c_range by (intro f32_error_num(1)) simp
  have e': "e = ?fl (d * 32767)" by (simp add: e d_def c_def t_def a_def f32_double)
  have e_range: "- 32767 \<le> e" "e \<le> 32767"
    using f32_range[of "-32767" "d * 32767" 32767] d_range by (simp_all add: e')
  have e_err: "\<bar>e - d * 32767\<bar> \<le> 1 / 2 ^ 10"
    unfolding e' using d_range by (intro f32_error_num(6)) (simp add: abs_le_iff)
  define q where "q = trunc e"
  have q_range: "- 32767 \<le> q" "q \<le> 32767"
    using trunc_bounds[of "-32767" e 32767] e_range by (simp_all add: q_def)
  have q_err: "\<bar>real_of_int q - e\<bar> \<le> 1" unfolding q_def by (rule trunc_error)
  define g where "g = ?fl (real_of_int q / 32767)"
  have qq: "- 1 \<le> real_of_int q / 32767" "real_of_int q / 32767 \<le> 1" using q_range by simp_all
  have g_range: "- 1 \<le> g" "g \<le> 1" using f32_range[of "-1" "real_of_int q / 32767" 1] qq by (simp_all add: g_def)
  have g_err: "\<bar>g - real_of_int q / 32767\<bar> \<le> 1 / 2 ^ 24"
    unfolding g_def using qq by (intro f32_error_num(1)) (simp add: abs_le_iff)
  define h where "h = ?fl (g + 1)"
  have h_range: "0 \<le> h" "h \<le> 2" using f32_range[of 0 "g + 1" 2] g_range by (simp_all add: h_def)
  have h_err: "\<bar>h - (g + 1)\<bar> \<le> 1 / 2 ^ 23" unfolding h_def using g_range by (intro f32_error_num(2)) simp
  define i where "i = ?fl (h / 2)"
  have i_range: "0 \<le> i" "i \<le> 1" using f32_range[of 0 "h / 2" 1] h_range by (simp_all add: i_def)
  have i_err: "\<bar>i - h / 2\<bar> \<le> 1 / 2 ^ 24" unfolding i_def using h_range by (intro f32_error_num(1)) simp
  define j where "j = ?fl (i * r)"
  have ir: "0 \<le> i * r" "i * r \<le> 200"
    using i_range rpos by (simp_all add: mult_le_one mult_mono[of i 1 r 200, simplified])
  have j_range: "0 \<le> j" "j \<le> 200" using f32_range[of 0 "i * r" 200] ir by (simp_all add: j_def)
  have j_err: "\<bar>j - i * r\<bar> \<le> 1 / 2 ^ 17" unfolding j_def using ir by (intro f32_error_num(4)) simp
  define k where "k = ?fl (j + m)"
  have m100: "m \<le> 100" using assms(1,2,4) by simp
  have k_err: "\<bar>k - (j + m)\<bar> \<le> 1 / 2 ^ 16"
    unfolding k_def using j_range assms(3) m100 by (intro f32_error_num(5)) (simp add: abs_le_iff)
  \<comment> \<open>the normalised value before and after\<close>
  have S: "\<bar>h - t\<bar> \<le> 1 / 2 ^ 23 + 1 / 2 ^ 24 + 1 / 32767 + (1 / 2 ^ 10) / 32767 + 1 / 2 ^ 24 + 1 / 2 ^ 23"
  proof -
    have eq: "h - t = (h - (g + 1)) + (g - real_of_int q / 32767) + (real_of_int q - e) / 32767
        + (e - d * 32767) / 32767 + (d - (c - 1)) + (c - t)"
      by (simp add: field_simps)
    have 3: "\<bar>(real_of_int q - e) / 32767\<bar> \<le> 1 / 32767" using q_err by simp
    have 4: "\<bar>(e - d * 32767) / 32767\<bar> \<le> (1 / 2 ^ 10) / 32767" using e_err by simp
    show ?thesis unfolding eq by (rule abs_sum6[OF h_err g_err 3 4 d_err c_err])
  qed
  have T: "\<bar>i - a / r\<bar> \<le> 156 / 10000000"
  proof -
    have eq: "i - a / r = (i - h / 2) + (h - t) / 2" by (simp add: t_def field_simps)
    have "\<bar>(h - t) / 2\<bar> \<le> (1 / 2 ^ 23 + 1 / 2 ^ 24 + 1 / 32767 + (1 / 2 ^ 10) / 32767 + 1 / 2 ^ 24 + 1 / 2 ^ 23) / 2"
      using S by simp
    from abs_sum2[OF i_err this] have "\<bar>i - a / r\<bar> \<le> 1 / 2 ^ 24 +
       (1 / 2 ^ 23 + 1 / 2 ^ 24 + 1 / 32767 + (1 / 2 ^ 10) / 32767 + 1 / 2 ^ 24 + 1 / 2 ^ 23) / 2"
      unfolding eq .
    also have "\<dots> \<le> 156 / 10000000" by simp
    finally show ?thesis .
  qed
  have "i * r - a = (i - a / r) * r" using rpos by (simp add: field_simps)
  then have "\<bar>i * r - a\<bar> = \<bar>i - a / r\<bar> * r" using rpos by (simp add: abs_mult)
  also have "\<dots> \<le> 156 / 10000000 * 200"
    using T rpos by (intro mult_mono) simp_all
  finally have ira: "\<bar>i * r - a\<bar> \<le> 312 / 100000" by simp
  have eq: "k - y = (k - (j + m)) + (j - i * r) + (i * r - a) + (a - (y - m))" by simp
  have "\<bar>k - y\<bar> \<le> 1 / 2 ^ 16 + 1 / 2 ^ 17 + 312 / 100000 + 1 / 2 ^ 17"
    unfolding eq by (rule abs_sum4[OF k_err j_err ira a_err])
  also have "\<dots> \<le> 32 / 10000" by simp
  finally have "\<bar>k - y\<bar> \<le> 32 / 10000" .
  moreover have "k = ?fl (?fl (?fl (?fl (?fl (real_of_int (trunc e) / 32767) + 1) / 2) * r) + m)"
    by (simp add: k_def j_def i_def h_def g_def q_def)
  ultimately show ?thesis using q_range by (simp add: q_def)
qed

lemma intensity_roundtrip:
  assumes "0 \<le> v" and "v \<le> 1"
  shows "\<bar>f32 ieee_arith (real (unat (quantize_intensity ieee_arith (f32 ieee_arith v))) / 65535) - v\<bar>
           \<le> 32 / 10000"
proof -
  let ?fl = "f32 ieee_arith"
  define v32 where "v32 = ?fl v"
  have v32_range: "0 \<le> v32" "v32 \<le> 1" using f32_range[of 0 v 1] assms by (simp_all add: v32_def)
  have v32_err: "\<bar>v32 - v\<bar> \<le> 1 / 2 ^ 24"
    unfolding v32_def using assms by (intro f32_error_num(1)) simp
  define w where "w = ?fl (v32 * 65535)"
  have w_range: "0 \<le> w" "w \<le> 65535"
    using f32_range[of 0 "v32 * 65535" 65535] v32_range by (simp_all add: w_def)
  have w_err: "\<bar>w - v32 * 65535\<bar> \<le> 1 / 2 ^ 9"
    unfolding w_def using v32_range by (intro f32_error_num(7)) simp
  have clip: "max 0 (min 65535 w) = w" using w_range by simp
  define n where "n = trunc w"
  have n_range: "0 \<le> n" "n \<le> 65535" using trunc_bounds[of 0 w 65535] w_range by (simp_all add: n_def)
  have n_err: "\<bar>real_of_int n - w\<bar> \<le> 1" unfolding n_def by (rule trunc_error)
  have un: "real (unat (quantize_intensity ieee_arith v32)) = real_of_int n"
    unfolding quantize_intensity_def w_def[symmetric] clip
    using unat_to_uint16[of w] n_range by (simp add: n_def)
  define z where "z = ?fl (real_of_int n / 65535)"
  have nn: "0 \<le> real_of_int n / 65535" "real_of_int n / 65535 \<le> 1" using n_range by simp_all
  have z_err: "\<bar>z - real_of_int n / 65535\<bar> \<le> 1 / 2 ^ 24"
    unfolding z_def using nn by (intro f32_error_num(1)) simp
  have eq: "z - v = (z - real_of_int n / 65535) + (real_of_int n - w) / 65535
      + (w - v32 * 65535) / 65535 + (v32 - v)" by (simp add: field_simps)
  have 2: "\<bar>(real_of_int n - w) / 65535\<bar> \<le> 1 / 65535" using n_err by simp
  have 3: "\<bar>(w - v32 * 65535) / 65535\<bar> \<le> (1 / 2 ^ 9) / 65535" using w_err by simp
  have "\<bar>z - v\<bar> \<le> 1 / 2 ^ 24 + 1 / 65535 + (1 / 2 ^ 9) / 65535 + 1 / 2 ^ 24"
    unfolding eq by (rule abs_sum4[OF z_err 2 3 v32_err])
  also have "\<dots> \<le> 32 / 10000" by simp
  finally have "\<bar>z - v\<bar> \<le> 32 / 10000" .
  moreover have "z = ?fl (real (unat (quantize_intensity ieee_arith (?fl v))) / 65535)"
    unfolding z_def v32_def[symmetric] by (simp only: un)
  ultimately show ?thesis by (simp only:)
qed

lemma f16_mono: "x \<le> y \<Longrightarrow> float_round 11 (-14) x \<le> float_round 11 (-14) y"
  by (rule float_round_mono) simp_all

lemma fp16_roundtrip:
  assumes "\<bar>x\<bar> \<le> 100"
  shows "\<exists>z. to_float16 (f32 ieee_arith x) = Finite z \<and> \<bar>z - x\<bar> \<le> 32 / 1000"
proof -
  define y where "y = f32 ieee_arith x"
  have y_range: "- 100 \<le> y" "y \<le> 100" using f32_range[of "-100" x 100] assms by (simp_all add: y_def)
  have y_err: "\<bar>y - x\<bar> \<le> 1 / 2 ^ 18" unfolding y_def using assms by (rule f32_error_num(3))
  define z where "z = float_round 11 (-14) y"
  have h: "float_round 11 (-14) 100 = 100" "float_round 11 (-14) (- 100) = - 100"
    using float_round_of_int[of 100 11 "-14"] float_round_of_int[of "-100" 11 "-14"] by simp_all
  have z_range: "- 100 \<le> z" "z \<le> 100"
    using f16_mono[OF y_range(1)] f16_mono[OF y_range(2)] by (simp_all add: z_def h)
  have "\<bar>y\<bar> < 2 powr (of_int 7)" using y_range by simp
  from float_round_error_bound[OF this, of "-14" 11] have z_err: "\<bar>z - y\<bar> \<le> 1 / 2 ^ 5"
    by (simp add: z_def powr_minus_divide)
  have "to_float16 y = Finite z" using z_range by (simp add: to_float16_def Let_def z_def)
  moreover have "\<bar>z - x\<bar> \<le> 32 / 1000"
  proof -
    have "z - x = (z - y) + (y - x)" by simp
    then have "\<bar>z - x\<bar> \<le> 1 / 2 ^ 5 + 1 / 2 ^ 18" using abs_sum2[OF z_err y_err] by simp
    also have "\<dots> \<le> 32 / 1000" by simp
    finally show ?thesis .
  qed
  ultimately show ?thesis unfolding y_def by blast
qed

lemma np_min_eq_Min: "xs \<noteq> [] \<Longrightarrow> np_min xs = Inr (Min (set xs))"
proof (cases xs)
  case (Cons x ys)
  have "fold min ys x = Min (set (x # ys))" by (rule Min.set_eq_fold[symmetric])
  then show ?thesis unfolding Cons np_min_def by (simp only: list.case)
qed simp

lemma list_all2_concat:
  "list_all2 (list_all2 P) xss yss \<Longrightarrow> list_all2 P (concat xss) (concat yss)"
  by (induction xss yss rule: list_all2_induct) (simp_all add: list_all2_appendI)

lemma list_all2_rows_map:
  assumes "\<forall>r\<in>set rs. list_all2 P r (F r)"
  shows "list_all2 (list_all2 P) rs (map F rs)"
  using assms by (induction rs) simp_all

lemma list_all2_map_same:
  "(\<And>x. x \<in> set r \<Longrightarrow> P x (f x)) \<Longrightarrow> list_all2 P r (map f r)"
  by (induction r) auto

text \<open>If every element is within \<open>B\<close> of its original, so is the RMS error.\<close>

lemma compute_quantization_error_bounded:
  assumes "shape p = shape d"
    and "list_all2 (\<lambda>x y. \<bar>x - y\<bar> \<le> B) (flatten p) (flatten d)"
    and "flatten p \<noteq> []"
  shows "\<exists>max_error mean_error rmse.
           compute_quantization_error exact_arith p d = Inr (map_of [
             (''max_error'', PFloat max_error),
             (''mean_error'', PFloat mean_error),
             (''rmse'', PFloat rmse),
             (''within_tolerance_1mm'', PBool (max_error \<le> f64 exact_arith 0.001)),
             (''max_error_mm'', PFloat (f64 exact_arith (max_error * 1000)))]) \<and>
           rmse \<le> B \<and> max_error \<le> B"
proof -
  let ?err = "map2 (\<lambda>a b. \<bar>f32 exact_arith (a - b)\<bar>) (flatten p) (flatten d)"
  let ?sq = "map (\<lambda>e. f32 exact_arith (e * e)) ?err"
  have len: "length (flatten p) = length (flatten d)" using assms(2) by (rule list_all2_lengthD)
  have ne: "?err \<noteq> []" using assms(3) len by (cases "flatten p"; cases "flatten d") simp_all
  have mx: "np_max ?err = Inr (Max (set ?err))" using ne by (rule np_max_eq_Max)
  have "\<forall>e\<in>set ?err. e \<le> B"
    using assms(2) by (auto simp: set_zip list_all2_conv_all_nth exact_arith_def)
  then have MB: "Max (set ?err) \<le> B" using ne by simp
  have "f32 exact_arith (sqrt (np_mean exact_arith ?sq)) \<le> Max (set ?err)"
    by (rule exact_chain(2)[OF ne abs_errors_nonneg])
  with MB have "f32 exact_arith (sqrt (np_mean exact_arith ?sq)) \<le> B" by linarith
  with compute_quantization_error_returns[OF assms(1) mx] MB show ?thesis by blast
qed

subsection \<open>The float16 round trip\<close>

lemma astype_float32_fp16: "astype_float32 A (QFloat16 a) = Inr a"
  by (simp add: astype_float32_def)

lemma quantize_points_fp16:
  "quantize_points A p ''fp16'' =
     Inr (QFloat16 (fst (quantize_fp16 A p)), snd (quantize_fp16 A p))"
  by (simp add: quantize_points_def map_prod_def split_beta)

lemma dequantize_fp16:
  "dequantize_points A (QFloat16 a) (snd (quantize_fp16 A p)) = Inr a"
  by (simp add: dequantize_points_def quantize_fp16_def Let_def astype_float32_fp16)

lemma fp16_rows_finite:
  assumes "\<forall>r\<in>set rs. \<forall>x\<in>set r. \<bar>x\<bar> \<le> 100"
  shows "map (map to_float16) (map (map (f32 ieee_arith)) rs) =
         map (map Finite) (map (map (\<lambda>x. float_round 11 (-14) (f32 ieee_arith x))) rs)"
proof -
  have "to_float16 (f32 ieee_arith x) = Finite (float_round 11 (-14) (f32 ieee_arith x))"
    if "\<bar>x\<bar> \<le> 100" for x
  proof -
    from fp16_roundtrip[OF that] obtain z where z: "to_float16 (f32 ieee_arith x) = Finite z" by blast
    then show ?thesis by (auto simp: to_float16_def Let_def split: if_splits)
  qed
  then show ?thesis using assms by (simp add: comp_def)
qed

lemma fp16_element_error:
  assumes "\<bar>x\<bar> \<le> 100"
  shows "\<bar>x - float_round 11 (-14) (f32 ieee_arith x)\<bar> \<le> 32 / 1000"
proof -
  from fp16_roundtrip[OF assms] obtain z where z: "to_float16 (f32 ieee_arith x) = Finite z"
    "\<bar>z - x\<bar> \<le> 32 / 1000" by blast
  from z(1) have "z = float_round 11 (-14) (f32 ieee_arith x)"
    by (auto simp: to_float16_def Let_def split: if_splits)
  with z(2) show ?thesis by (simp add: abs_minus_commute)
qed

lemma fp16_roundtrip_array:
  assumes "\<forall>r\<in>set (rows p). \<forall>x\<in>set r. \<bar>x\<bar> \<le> 100" and "flatten p \<noteq> []"
  shows "\<exists>q md d max_error mean_error rmse.
           quantize_points ieee_arith p ''fp16'' = Inr (q, md) \<and>
           dequantize_points ieee_arith q md = Inr (finite_array d) \<and>
           compute_quantization_error exact_arith p d = Inr (map_of [
             (''max_error'', PFloat max_error),
             (''mean_error'', PFloat mean_error),
             (''rmse'', PFloat rmse),
             (''within_tolerance_1mm'', PBool (max_error \<le> f64 exact_arith 0.001)),
             (''max_error_mm'', PFloat (f64 exact_arith (max_error * 1000)))]) \<and>
           rmse \<le> 32 / 1000"
proof -
  let ?F = "map (\<lambda>x. float_round 11 (-14) (f32 ieee_arith x))"
  let ?d = "\<lparr>shape = shape p, rows = map ?F (rows p)\<rparr>"
  have q: "fst (quantize_fp16 ieee_arith p) = finite_array ?d"
    using fp16_rows_finite[OF assms(1)] by (simp add: quantize_fp16_def Let_def finite_array_def)
  have "\<forall>r\<in>set (rows p). list_all2 (\<lambda>x y. \<bar>x - y\<bar> \<le> 32 / 1000) r (?F r)"
  proof (intro ballI list_all2_map_same fp16_element_error)
    fix r x assume "r \<in> set (rows p)" "x \<in> set r"
    with assms(1) show "\<bar>x\<bar> \<le> 100" by blast
  qed
  then have "list_all2 (list_all2 (\<lambda>x y. \<bar>x - y\<bar> \<le> 32 / 1000)) (rows p) (map ?F (rows p))"
    by (rule list_all2_rows_map)
  then have "list_all2 (\<lambda>x y. \<bar>x - y\<bar> \<le> 32 / 1000) (flatten p) (flatten ?d)"
    unfolding flatten_def by (simp add: list_all2_concat)
  from compute_quantization_error_bounded[OF _ this assms(2)]
  obtain mx mn rm where "compute_quantization_error exact_arith p ?d = Inr (map_of [
             (''max_error'', PFloat mx),
             (''mean_error'', PFloat mn),
             (''rmse'', PFloat rm),
             (''within_tolerance_1mm'', PBool (mx \<le> f64 exact_arith 0.001)),
             (''max_error_mm'', PFloat (f64 exact_arith (mx * 1000)))])" "rm \<le> 32 / 1000"
    by auto
  with quantize_points_fp16[of ieee_arith p]
    dequantize_fp16[of ieee_arith "fst (quantize_fp16 ieee_arith p)" p] q
  show ?thesis by metis
qed

subsection \<open>The integer round trip\<close>

lemma float_array_floats:
  assumes "md key = Some (PList (map PFloat vs))"
  shows "float_array A md key = Inr (map (f32 A) vs)"
  using assms by (simp add: float_array_def Let_def list_all_iff comp_def)

lemma quantize_int16_value:
  assumes "ndim p = 2" and "3 \<le> shape p ! 1"
    and "np_min (column (map (take 3) (map (map (f32 A)) (rows p))) 0) = Inr m0"
    and "np_min (column (map (take 3) (map (map (f32 A)) (rows p))) 1) = Inr m1"
    and "np_min (column (map (take 3) (map (map (f32 A)) (rows p))) 2) = Inr m2"
    and "np_max (column (map (take 3) (map (map (f32 A)) (rows p))) 0) = Inr M0"
    and "np_max (column (map (take 3) (map (map (f32 A)) (rows p))) 1) = Inr M1"
    and "np_max (column (map (take 3) (map (map (f32 A)) (rows p))) 2) = Inr M2"
    and "br = unit_if_zero [f32 A (M0 - m0), f32 A (M1 - m1), f32 A (M2 - m2)]"
    and "xq = map (\<lambda>r. map (\<lambda>v. to_int16 (f32 A (v * 32767)))
                      (normalize_point A [m0, m1, m2] br (take 3 (map (f32 A) r)))) (rows p)"
  shows "\<exists>md. quantize_int16 A p =
           Inr (if 3 < shape p ! 1
                then QStruct (map2 (\<lambda>q i. PointRecord (q ! 0) (q ! 1) (q ! 2) (quantize_intensity A i))
                                xq (column (map (map (f32 A)) (rows p)) 3))
                else QInt16 \<lparr>shape = [length xq, 3], rows = xq\<rparr>, md) \<and>
           md ''mode'' = Some (PStr ''int16'') \<and>
           md ''bbox_min'' = Some (PList (map PFloat [m0, m1, m2])) \<and>
           md ''bbox_max'' = Some (PList (map PFloat [M0, M1, M2]))"
proof -
  have nz: "\<not> list_ex (\<lambda>d. d = 0) br"
    unfolding assms(9) by (rule unit_if_zero_no_zero_entry)
  show ?thesis
    unfolding quantize_int16_def Let_def
    using assms(1,2) nz unfolding assms(3-8)
    by (simp add: assms(9)[symmetric] assms(10) comp_def)
qed

lemma denormalize_three:
  assumes "\<forall>r\<in>set xyz. length r = 3"
    and "br = unit_if_zero [f32 A (M0 - m0), f32 A (M1 - m1), f32 A (M2 - m2)]"
    and "out = map (\<lambda>r. map (\<lambda>k. f32 A (f32 A (f32 A (f32 A
                 (f32 A (real_of_int (sint (r ! k)) / 32767) + 1) / 2) * br ! k) + [m0, m1, m2] ! k))
               [0, 1, 2]) xyz"
  shows "denormalize A [m0, m1, m2] [M0, M1, M2] 3 xyz ints =
     Inr (finite_array (case ints of
        Some is \<Rightarrow> \<lparr>shape = [length xyz, 4],
                    rows = map2 (\<lambda>r i. r @ [f32 A (real (unat i) / 65535)]) out is\<rparr>
      | None \<Rightarrow> \<lparr>shape = [length xyz, 3], rows = out\<rparr>))"
proof -
  have up: "[0..<3] = [0, 1, 2::nat]" by (simp add: upt_rec)
  have brl: "length br = 3" by (simp add: assms(2) unit_if_zero_def)
  have br: "unit_if_zero (map (\<lambda>k. f32 A (bget [M0, M1, M2] k - bget [m0, m1, m2] k)) [0..<3]) = br"
    by (simp add: up bget_def assms(2))
  have rows: "map (\<lambda>r. map (\<lambda>k. f32 A (f32 A (f32 A (f32 A (bget r k + 1) / 2) * bget br k)
                + bget [m0, m1, m2] k)) [0..<3])
        (map (map (\<lambda>q. f32 A (real_of_int (sint q) / 32767))) xyz) = out"
    unfolding assms(3) using assms(1) brl by (simp add: up bget_def comp_def)
  have d: "bdim (length [M0, M1, M2]) (length [m0, m1, m2]) = Inr 3"
    "bdim 3 3 = Inr 3" "bdim 3 (length [m0, m1, m2]) = Inr 3"
    by (simp_all add: bdim_def)
  have lo: "length out = length xyz" by (simp add: assms(3))
  show ?thesis
    unfolding denormalize_def Let_def d sum.case br rows
    by (cases ints) (simp_all add: lo)
qed

lemma int16_coordinate_error:
  assumes "\<bar>x\<bar> \<le> 100" and "m \<le> f32 ieee_arith x" and "f32 ieee_arith x \<le> M"
    and "- 100 \<le> m" and "M \<le> 100"
    and "r = (if f32 ieee_arith (M - m) = 0 then 1 else f32 ieee_arith (M - m))"
  shows "\<bar>x - f32 ieee_arith (f32 ieee_arith (f32 ieee_arith (f32 ieee_arith
           (f32 ieee_arith (real_of_int (sint (to_int16
              (f32 ieee_arith (f32 ieee_arith (f32 ieee_arith
                 (f32 ieee_arith (2 * f32 ieee_arith (f32 ieee_arith x - m)) / r) - 1) * 32767))))
            / 32767) + 1) / 2) * r) + m)\<bar> \<le> 33 / 10000"
proof -
  let ?fl = "f32 ieee_arith"
  define e where "e = ?fl (?fl (?fl (?fl (2 * ?fl (?fl x - m)) / r) - 1) * 32767)"
  from int16_coordinate_roundtrip[OF assms(2,3,4,5,6) e_def]
  have q: "- 32767 \<le> trunc e" "trunc e \<le> 32767"
    and b: "\<bar>?fl (?fl (?fl (?fl (?fl (real_of_int (trunc e) / 32767) + 1) / 2) * r) + m) - ?fl x\<bar>
       \<le> 32 / 10000" by simp_all
  have s: "sint (to_int16 e) = trunc e" using q by (intro sint_to_int16) simp_all
  have x: "\<bar>?fl x - x\<bar> \<le> 1 / 2 ^ 18" using assms(1) by (rule f32_error_num(3))
  let ?k = "?fl (?fl (?fl (?fl (?fl (real_of_int (trunc e) / 32767) + 1) / 2) * r) + m)"
  have "?k - x = (?k - ?fl x) + (?fl x - x)" by simp
  then have "\<bar>?k - x\<bar> \<le> 32 / 10000 + 1 / 2 ^ 18" using abs_sum2[OF b x] by simp
  also have "\<dots> \<le> 33 / 10000" by simp
  finally have "\<bar>x - ?k\<bar> \<le> 33 / 10000" by (simp only: abs_minus_commute)
  then show ?thesis unfolding e_def[symmetric] s .
qed

lemma list_all2_three:
  assumes "length xs = 3" and "P (xs ! 0) a" and "P (xs ! 1) b" and "P (xs ! 2) c"
  shows "list_all2 P xs [a, b, c]"
proof -
  from assms(1) obtain x0 x1 x2 where "xs = [x0, x1, x2]"
    by (auto simp: numeral_3_eq_3 length_Suc_conv)
  with assms(2-4) show ?thesis by simp
qed

lemma int16_row_roundtrip:
  fixes row :: "real list"
  assumes "3 \<le> length row"
    and "\<forall>k<3. \<bar>row ! k\<bar> \<le> 100"
    and "\<forall>k<3. [m0, m1, m2] ! k \<le> f32 ieee_arith (row ! k) \<and>
                f32 ieee_arith (row ! k) \<le> [M0, M1, M2] ! k"
    and "\<forall>k<3. - 100 \<le> [m0, m1, m2] ! k \<and> [M0, M1, M2] ! k \<le> 100"
    and "br = unit_if_zero [f32 ieee_arith (M0 - m0), f32 ieee_arith (M1 - m1),
                            f32 ieee_arith (M2 - m2)]"
    and "q = map (\<lambda>v. to_int16 (f32 ieee_arith (v * 32767)))
               (normalize_point ieee_arith [m0, m1, m2] br (take 3 (map (f32 ieee_arith) row)))"
  shows "list_all2 (\<lambda>x y. \<bar>x - y\<bar> \<le> 33 / 10000) (take 3 row)
           (map (\<lambda>k. f32 ieee_arith (f32 ieee_arith (f32 ieee_arith (f32 ieee_arith
                   (f32 ieee_arith (real_of_int (sint (q ! k)) / 32767) + 1) / 2) * br ! k)
                   + [m0, m1, m2] ! k)) [0, 1, 2])"
proof -
  have l: "0 < length row" "1 < length row" "2 < length row" using assms(1) by linarith+
  have k0: "(0::nat) < 3" and k1: "(1::nat) < 3" and k2: "(2::nat) < 3" by simp_all
  have br: "br ! 0 = (if f32 ieee_arith (M0 - m0) = 0 then 1 else f32 ieee_arith (M0 - m0))"
    "br ! 1 = (if f32 ieee_arith (M1 - m1) = 0 then 1 else f32 ieee_arith (M1 - m1))"
    "br ! 2 = (if f32 ieee_arith (M2 - m2) = 0 then 1 else f32 ieee_arith (M2 - m2))"
    by (simp_all add: assms(5) unit_if_zero_def)
  have t: "take 3 (map (f32 ieee_arith) row) ! 0 = f32 ieee_arith (row ! 0)"
    "take 3 (map (f32 ieee_arith) row) ! 1 = f32 ieee_arith (row ! 1)"
    "take 3 (map (f32 ieee_arith) row) ! 2 = f32 ieee_arith (row ! 2)"
    using l by simp_all
  have tr: "take 3 row ! 0 = row ! 0" "take 3 row ! 1 = row ! 1" "take 3 row ! 2 = row ! 2"
    "length (take 3 row) = 3"
    using l assms(1) by simp_all
  have q: "q ! 0 = to_int16 (f32 ieee_arith (f32 ieee_arith (f32 ieee_arith
                 (f32 ieee_arith (2 * f32 ieee_arith (f32 ieee_arith (row ! 0) - m0)) / br ! 0) - 1) * 32767))"
    "q ! 1 = to_int16 (f32 ieee_arith (f32 ieee_arith (f32 ieee_arith
                 (f32 ieee_arith (2 * f32 ieee_arith (f32 ieee_arith (row ! 1) - m1)) / br ! 1) - 1) * 32767))"
    "q ! 2 = to_int16 (f32 ieee_arith (f32 ieee_arith (f32 ieee_arith
                 (f32 ieee_arith (2 * f32 ieee_arith (f32 ieee_arith (row ! 2) - m2)) / br ! 2) - 1) * 32767))"
    unfolding assms(6) normalize_point_def t[symmetric] by simp_all
  have c0: "\<bar>row ! 0 - f32 ieee_arith (f32 ieee_arith (f32 ieee_arith (f32 ieee_arith
                   (f32 ieee_arith (real_of_int (sint (q ! 0)) / 32767) + 1) / 2) * br ! 0)
                   + m0)\<bar> \<le> 33 / 10000"
    unfolding q(1) using assms(2)[rule_format, OF k0] assms(3)[rule_format, OF k0]
      assms(4)[rule_format, OF k0]
    by (intro int16_coordinate_error[where M = M0] br(1)) simp_all
  have c1: "\<bar>row ! 1 - f32 ieee_arith (f32 ieee_arith (f32 ieee_arith (f32 ieee_arith
                   (f32 ieee_arith (real_of_int (sint (q ! 1)) / 32767) + 1) / 2) * br ! 1)
                   + m1)\<bar> \<le> 33 / 10000"
    unfolding q(2) using assms(2)[rule_format, OF k1] assms(3)[rule_format, OF k1]
      assms(4)[rule_format, OF k1]
    by (intro int16_coordinate_error[where M = M1] br(2)) simp_all
  have c2: "\<bar>row ! 2 - f32 ieee_arith (f32 ieee_arith (f32 ieee_arith (f32 ieee_arith
                   (f32 ieee_arith (real_of_int (sint (q ! 2)) / 32767) + 1) / 2) * br ! 2)
                   + m2)\<bar> \<le> 33 / 10000"
    unfolding q(3) using assms(2)[rule_format, OF k2] assms(3)[rule_format, OF k2]
      assms(4)[rule_format, OF k2]
    by (intro int16_coordinate_error[where M = M2] br(3)) simp_all
  have n: "[m0, m1, m2] ! 0 = m0" "[m0, m1, m2] ! 1 = m1" "[m0, m1, m2] ! 2 = m2" by simp_all
  show ?thesis
    unfolding list.map
    by (rule list_all2_three[OF tr(4)]) (simp_all only: tr(1-3) n c0 c1 c2)
qed

lemma column_xyz:
  assumes "\<forall>r\<in>set rs. 3 \<le> length r" and "k < 3"
  shows "column (map (take 3) (map (map f) rs)) k = map (\<lambda>r. f (r ! k)) rs"
  using assms by (auto simp: column_def)

lemma bbox_facts:
  assumes "\<forall>r\<in>set rs. 3 \<le> length r" and "rs \<noteq> []"
    and "\<forall>r\<in>set rs. \<forall>k<3. \<bar>r ! k\<bar> \<le> 100" and "k < 3"
    and "col = column (map (take 3) (map (map (f32 ieee_arith)) rs)) k"
  shows "np_min col = Inr (Min (set col))" and "np_max col = Inr (Max (set col))"
    and "\<forall>r\<in>set rs. Min (set col) \<le> f32 ieee_arith (r ! k) \<and> f32 ieee_arith (r ! k) \<le> Max (set col)"
    and "- 100 \<le> Min (set col)" and "Max (set col) \<le> 100"
    and "f32 ieee_arith (Min (set col)) = Min (set col)"
    and "f32 ieee_arith (Max (set col)) = Max (set col)"
proof -
  have col: "col = map (\<lambda>r. f32 ieee_arith (r ! k)) rs"
    unfolding assms(5) using assms(1,4) by (rule column_xyz)
  have ne: "col \<noteq> []" using assms(2) by (simp add: col)
  show "np_min col = Inr (Min (set col))" using ne by (rule np_min_eq_Min)
  show "np_max col = Inr (Max (set col))" using ne by (rule np_max_eq_Max)
  show "\<forall>r\<in>set rs. Min (set col) \<le> f32 ieee_arith (r ! k) \<and> f32 ieee_arith (r ! k) \<le> Max (set col)"
    by (simp add: col)
  have el: "- 100 \<le> v \<and> v \<le> 100 \<and> f32 ieee_arith v = v" if "v \<in> set col" for v
  proof -
    from that obtain r where r: "r \<in> set rs" "v = f32 ieee_arith (r ! k)" by (auto simp: col)
    with assms(3,4) have "\<bar>r ! k\<bar> \<le> 100" by blast
    then have "- 100 \<le> r ! k" "r ! k \<le> 100" by simp_all
    with f32_range[of "-100" "r ! k" 100] show ?thesis by (simp add: r(2) f32_idem)
  qed
  have "Min (set col) \<in> set col" "Max (set col) \<in> set col" using ne by simp_all
  with el show "- 100 \<le> Min (set col)" "Max (set col) \<le> 100"
    "f32 ieee_arith (Min (set col)) = Min (set col)"
    "f32 ieee_arith (Max (set col)) = Max (set col)" by blast+
qed

lemma quantize_points_int16: "quantize_points A p ''int16'' = quantize_int16 A p"
  by (simp add: quantize_points_def)

lemma dequantize_points_int16:
  assumes "md ''mode'' = Some (PStr ''int16'')"
    and "md ''bbox_min'' = Some (PList (map PFloat bmin))"
    and "md ''bbox_max'' = Some (PList (map PFloat bmax))"
    and "map (f32 A) bmin = bmin" and "map (f32 A) bmax = bmax"
  shows "dequantize_points A (QInt16 a) md = denormalize_plain A bmin bmax a"
    and "dequantize_points A (QStruct rs) md =
           denormalize A bmin bmax 3 (map (\<lambda>r. [rec_x r, rec_y r, rec_z r]) rs)
             (Some (map rec_intensity rs))"
proof -
  have a: "float_array A md ''bbox_min'' = Inr bmin"
    using float_array_floats[of md "''bbox_min''" bmin A] assms(2,4) by simp
  have b: "float_array A md ''bbox_max'' = Inr bmax"
    using float_array_floats[of md "''bbox_max''" bmax A] assms(3,5) by simp
  show "dequantize_points A (QInt16 a) md = denormalize_plain A bmin bmax a"
    unfolding dequantize_points_def Let_def by (simp add: assms(1) a b)
  show "dequantize_points A (QStruct rs) md =
           denormalize A bmin bmax 3 (map (\<lambda>r. [rec_x r, rec_y r, rec_z r]) rs)
             (Some (map rec_intensity rs))"
    unfolding dequantize_points_def Let_def by (simp add: assms(1) a b)
qed

lemma flatten_nonempty:
  assumes "rows p \<noteq> []" and "\<forall>r\<in>set (rows p). 3 \<le> length r"
  shows "flatten p \<noteq> []"
proof -
  from assms(1) obtain r rs where "rows p = r # rs" by (cases "rows p") auto
  with assms(2) show ?thesis by (auto simp: flatten_def)
qed

lemma all_less_three: "(\<forall>k<(3::nat). P k) \<longleftrightarrow> P 0 \<and> P 1 \<and> P 2"
proof
  assume "\<forall>k<3. P k"
  then show "P 0 \<and> P 1 \<and> P 2" by simp
next
  assume a: "P 0 \<and> P 1 \<and> P 2"
  show "\<forall>k<3. P k"
  proof (intro allI impI)
    fix k :: nat assume "k < 3"
    then have "k = 0 \<or> k = 1 \<or> k = 2" by arith
    with a show "P k" by blast
  qed
qed

lemma int16_roundtrip_array:
  assumes shp: "shape p = [length (rows p), w]" and w: "w = 3 \<or> w = 4"
    and len: "\<forall>r\<in>set (rows p). length r = w" and ne: "rows p \<noteq> []"
    and xyz: "\<forall>r\<in>set (rows p). \<forall>k<3. \<bar>r ! k\<bar> \<le> 100"
    and int: "w = 4 \<longrightarrow> (\<forall>r\<in>set (rows p). 0 \<le> r ! 3 \<and> r ! 3 \<le> 1)"
  shows "\<exists>q md d max_error mean_error rmse.
           quantize_points ieee_arith p ''int16'' = Inr (q, md) \<and>
           dequantize_points ieee_arith q md = Inr (finite_array d) \<and>
           compute_quantization_error exact_arith p d = Inr (map_of [
             (''max_error'', PFloat max_error),
             (''mean_error'', PFloat mean_error),
             (''rmse'', PFloat rmse),
             (''within_tolerance_1mm'', PBool (max_error \<le> f64 exact_arith 0.001)),
             (''max_error_mm'', PFloat (f64 exact_arith (max_error * 1000)))]) \<and>
           rmse \<le> 33 / 10000"
proof -
  let ?fl = "f32 ieee_arith"
  let ?rs = "rows p"
  let ?P = "\<lambda>x y :: real. \<bar>x - y\<bar> \<le> 33 / 10000"
  have len3: "\<forall>r\<in>set ?rs. 3 \<le> length r" using len w by auto
  have k: "(0::nat) < 3" "(1::nat) < 3" "(2::nat) < 3" by simp_all
  define c0 where "c0 = column (map (take 3) (map (map ?fl) ?rs)) 0"
  define c1 where "c1 = column (map (take 3) (map (map ?fl) ?rs)) 1"
  define c2 where "c2 = column (map (take 3) (map (map ?fl) ?rs)) 2"
  define m0 where "m0 = Min (set c0)"
  define m1 where "m1 = Min (set c1)"
  define m2 where "m2 = Min (set c2)"
  define M0 where "M0 = Max (set c0)"
  define M1 where "M1 = Max (set c1)"
  define M2 where "M2 = Max (set c2)"
  note b0 = bbox_facts[OF len3 ne xyz k(1) c0_def, folded m0_def M0_def]
  note b1 = bbox_facts[OF len3 ne xyz k(2) c1_def, folded m1_def M1_def]
  note b2 = bbox_facts[OF len3 ne xyz k(3) c2_def, folded m2_def M2_def]
  define br where "br = unit_if_zero [?fl (M0 - m0), ?fl (M1 - m1), ?fl (M2 - m2)]"
  define xqrow where "xqrow = (\<lambda>r. map (\<lambda>v. to_int16 (?fl (v * 32767)))
      (normalize_point ieee_arith [m0, m1, m2] br (take 3 (map ?fl r))))"
  define xq where "xq = map xqrow ?rs"
  define dqrow where "dqrow = (\<lambda>r :: 16 word list.
      map (\<lambda>k. ?fl (?fl (?fl (?fl (?fl (real_of_int (sint (r ! k)) / 32767) + 1) / 2) * br ! k)
                   + [m0, m1, m2] ! k)) [0, 1, 2])"
  have nd: "ndim p = 2" "3 \<le> shape p ! 1" using shp w by (auto simp: ndim_def)
  have xq': "xq = map (\<lambda>r. map (\<lambda>v. to_int16 (?fl (v * 32767)))
      (normalize_point ieee_arith [m0, m1, m2] br (take 3 (map ?fl r)))) ?rs"
    by (simp add: xq_def xqrow_def)
  from quantize_int16_value[OF nd b0(1)[unfolded c0_def] b1(1)[unfolded c1_def]
      b2(1)[unfolded c2_def] b0(2)[unfolded c0_def] b1(2)[unfolded c1_def] b2(2)[unfolded c2_def]
      br_def xq']
  obtain md where q: "quantize_int16 ieee_arith p =
           Inr (if 3 < shape p ! 1
                then QStruct (map2 (\<lambda>q i. PointRecord (q ! 0) (q ! 1) (q ! 2) (quantize_intensity ieee_arith i))
                                xq (column (map (map ?fl) ?rs) 3))
                else QInt16 \<lparr>shape = [length xq, 3], rows = xq\<rparr>, md)"
    and md: "md ''mode'' = Some (PStr ''int16'')"
      "md ''bbox_min'' = Some (PList (map PFloat [m0, m1, m2]))"
      "md ''bbox_max'' = Some (PList (map PFloat [M0, M1, M2]))"
    by blast
  have idm: "map ?fl [m0, m1, m2] = [m0, m1, m2]" "map ?fl [M0, M1, M2] = [M0, M1, M2]"
    using b0(6,7) b1(6,7) b2(6,7) by simp_all
  note dq = dequantize_points_int16[OF md idm]
  have xqlen: "\<forall>r\<in>set xq. length r = 3"
    by (simp add: xq_def xqrow_def normalize_point_def)
  have row_ok: "list_all2 ?P (take 3 r) (dqrow (xqrow r))" if r: "r \<in> set ?rs" for r
  proof -
    have 1: "3 \<le> length r" using len3 r by blast
    have 2: "\<forall>k<3. \<bar>r ! k\<bar> \<le> 100" using xyz r by blast
    have 3: "\<forall>k<3. [m0, m1, m2] ! k \<le> ?fl (r ! k) \<and> ?fl (r ! k) \<le> [M0, M1, M2] ! k"
      unfolding all_less_three using b0(3) b1(3) b2(3) r by simp
    have 4: "\<forall>k<3. - 100 \<le> [m0, m1, m2] ! k \<and> [M0, M1, M2] ! k \<le> 100"
      unfolding all_less_three using b0(4,5) b1(4,5) b2(4,5) by simp
    show ?thesis
      unfolding dqrow_def by (rule int16_row_roundtrip[OF 1 2 3 4 br_def]) (simp add: xqrow_def)
  qed
  have out: "map dqrow xq = map (\<lambda>r. map (\<lambda>k. ?fl (?fl (?fl (?fl
                 (?fl (real_of_int (sint (r ! k)) / 32767) + 1) / 2) * br ! k) + [m0, m1, m2] ! k))
               [0, 1, 2]) xq"
    by (simp add: dqrow_def)
  note dn = denormalize_three[OF xqlen br_def out]
  have fne: "flatten p \<noteq> []" using ne len3 by (rule flatten_nonempty)
  show ?thesis
  proof (cases "w = 3")
    case True
    let ?d = "\<lparr>shape = [length ?rs, 3], rows = map (\<lambda>r. dqrow (xqrow r)) ?rs\<rparr>"
    have Q: "quantize_points ieee_arith p ''int16'' =
        Inr (QInt16 \<lparr>shape = [length xq, 3], rows = xq\<rparr>, md)"
      using q shp True by (simp add: quantize_points_int16)
    have t3: "take 3 (xqrow r) = xqrow r" for r
      by (simp add: xqrow_def normalize_point_def)
    have D: "dequantize_points ieee_arith (QInt16 \<lparr>shape = [length xq, 3], rows = xq\<rparr>) md =
        Inr (finite_array ?d)"
      unfolding dq(1) denormalize_plain_def
      using dn[of None] by (simp add: ndim_def t3 xq_def comp_def)
    have "list_all2 (list_all2 ?P) ?rs (map (\<lambda>r. dqrow (xqrow r)) ?rs)"
    proof (rule list_all2_rows_map, rule ballI)
      fix r assume r: "r \<in> set ?rs"
      then have "take 3 r = r" using len True by simp
      with row_ok[OF r] show "list_all2 ?P r (dqrow (xqrow r))" by simp
    qed
    then have "list_all2 ?P (flatten p) (flatten ?d)"
      unfolding flatten_def by (simp add: list_all2_concat)
    from compute_quantization_error_bounded[OF _ this fne] shp True
    obtain mx mn rm where "compute_quantization_error exact_arith p ?d = Inr (map_of [
             (''max_error'', PFloat mx),
             (''mean_error'', PFloat mn),
             (''rmse'', PFloat rm),
             (''within_tolerance_1mm'', PBool (mx \<le> f64 exact_arith 0.001)),
             (''max_error_mm'', PFloat (f64 exact_arith (mx * 1000)))])" "rm \<le> 33 / 10000"
      by auto
    with Q D show ?thesis by blast
  next
    case False
    with w have w4: "w = 4" by simp
    let ?qi = "\<lambda>r. ?fl (real (unat (quantize_intensity ieee_arith (?fl (r ! 3)))) / 65535)"
    let ?d = "\<lparr>shape = [length ?rs, 4], rows = map (\<lambda>r. dqrow (xqrow r) @ [?qi r]) ?rs\<rparr>"
    let ?recs = "map (\<lambda>r. PointRecord (xqrow r ! 0) (xqrow r ! 1) (xqrow r ! 2)
                       (quantize_intensity ieee_arith (?fl (r ! 3)))) ?rs"
    have col3: "column (map (map ?fl) ?rs) 3 = map (\<lambda>r. ?fl (r ! 3)) ?rs"
      using len w4 by (auto simp: column_def)
    have recs: "map2 (\<lambda>q i. PointRecord (q ! 0) (q ! 1) (q ! 2) (quantize_intensity ieee_arith i))
                  xq (column (map (map ?fl) ?rs) 3) = ?recs"
      unfolding col3 xq_def by (rule map2_map_map)
    have "quantize_points ieee_arith p ''int16'' =
        Inr (QStruct (map2 (\<lambda>q i. PointRecord (q ! 0) (q ! 1) (q ! 2) (quantize_intensity ieee_arith i))
                  xq (column (map (map ?fl) ?rs) 3)), md)"
      using q shp w4 by (simp add: quantize_points_int16)
    then have Q: "quantize_points ieee_arith p ''int16'' = Inr (QStruct ?recs, md)"
      unfolding recs .
    have x3: "[xqrow r ! 0, xqrow r ! 1, xqrow r ! 2] = xqrow r" for r
      by (simp add: xqrow_def normalize_point_def)
    have xyzr: "map (\<lambda>r. [rec_x r, rec_y r, rec_z r]) ?recs = xq"
      unfolding xq_def map_map comp_def point_record.sel x3 ..
    have ints: "map rec_intensity ?recs = map (\<lambda>r. quantize_intensity ieee_arith (?fl (r ! 3))) ?rs"
      by (simp add: comp_def)
    have rows4: "map2 (\<lambda>r i. r @ [?fl (real (unat i) / 65535)]) (map dqrow xq)
        (map (\<lambda>r. quantize_intensity ieee_arith (?fl (r ! 3))) ?rs) =
        map (\<lambda>r. dqrow (xqrow r) @ [?qi r]) ?rs"
      unfolding xq_def map_map comp_def by (rule map2_map_map)
    have D: "dequantize_points ieee_arith (QStruct ?recs) md = Inr (finite_array ?d)"
      unfolding dq(2) xyzr ints
      using dn[of "Some (map (\<lambda>r. quantize_intensity ieee_arith (?fl (r ! 3))) ?rs)"]
      unfolding option.case rows4 by (simp add: xq_def)
    have "list_all2 (list_all2 ?P) ?rs (map (\<lambda>r. dqrow (xqrow r) @ [?qi r]) ?rs)"
    proof (rule list_all2_rows_map, rule ballI)
      fix r assume r: "r \<in> set ?rs"
      then have l4: "length r = 4" using len w4 by simp
      then have split: "r = take 3 r @ [r ! 3]"
        by (auto simp: numeral_eq_Suc length_Suc_conv)
      have "0 \<le> r ! 3" "r ! 3 \<le> 1" using int w4 r by blast+
      then have "\<bar>?qi r - r ! 3\<bar> \<le> 32 / 10000" by (rule intensity_roundtrip)
      then have "?P (r ! 3) (?qi r)" by (simp add: abs_minus_commute)
      then have "list_all2 ?P [r ! 3] [?qi r]" by simp
      with row_ok[OF r] have "list_all2 ?P (take 3 r @ [r ! 3]) (dqrow (xqrow r) @ [?qi r])"
        by (rule list_all2_appendI)
      with split show "list_all2 ?P r (dqrow (xqrow r) @ [?qi r])" by simp
    qed
    then have "list_all2 ?P (flatten p) (flatten ?d)"
      unfolding flatten_def by (simp add: list_all2_concat)
    from compute_quantization_error_bounded[OF _ this fne] shp w4
    obtain mx mn rm where "compute_quantization_error exact_arith p ?d = Inr (map_of [
             (''max_error'', PFloat mx),
             (''mean_error'', PFloat mn),
             (''rmse'', PFloat rm),
             (''within_tolerance_1mm'', PBool (mx \<le> f64 exact_arith 0.001)),
             (''max_error_mm'', PFloat (f64 exact_arith (mx * 1000)))])" "rm \<le> 33 / 10000"
      by auto
    with Q D show ?thesis by blast
  qed
qed

lemma wf_2d_rows:
  assumes "wf_ndarray p" and "ndim p = 2"
  shows "shape p = [length (rows p), shape p ! 1]" and "\<forall>r\<in>set (rows p). length r = shape p ! 1"
proof -
  show s: "shape p = [length (rows p), shape p ! 1]" using assms by (rule wf_ndarray_shape_2d)
  have "tl (shape p) = [shape p ! 1]" by (subst s) simp
  then have "prod_list (tl (shape p)) = shape p ! 1" by simp
  with assms(1) show "\<forall>r\<in>set (rows p). length r = shape p ! 1"
    by (simp add: wf_ndarray_def list_all_iff)
qed


subsection \<open>Two clouds in range that do not come back\<close>

lemma f32_ints:
  "f32 ieee_arith 0 = 0" "f32 ieee_arith 1 = 1" "f32 ieee_arith (- 1) = - 1"
  "f32 ieee_arith 50 = 50" "f32 ieee_arith (- 32767) = - 32767"
  "f32 ieee_arith 3276750 = 3276750"
  using f32_of_int[of 0] f32_of_int[of 1] f32_of_int[of "-1"] f32_of_int[of 50]
    f32_of_int[of "-32767"] f32_of_int[of 3276750]
  by simp_all

lemma word_facts:
  "sint (to_int16 (- 32767)) = - 32767" "unat (to_uint16 65535) = 65535"
  using sint_to_int16[of "- 32767"] unat_to_uint16[of 65535]
  by (simp_all add: trunc_def)

lemma quantize_int16_example:
  "quantize_points ieee_arith \<lparr>shape = [1, 4], rows = [[0, 0, 0, 50]]\<rparr> ''int16'' =
     Inr (QStruct [PointRecord (to_int16 (- 32767)) (to_int16 (- 32767)) (to_int16 (- 32767))
                     (to_uint16 65535)],
          map_of [
            (''mode'', PStr ''int16''),
            (''dtype'', PStr ''int16 (xyz) + uint16 (intensity)''),
            (''bytes_per_point'', PInt 8),
            (''compression'', PFloat 0.5),
            (''bbox_min'', PList [PFloat 0, PFloat 0, PFloat 0]),
            (''bbox_max'', PList [PFloat 0, PFloat 0, PFloat 0]),
            (''intensity_scale'', PInt 65535),
            (''precision_mm'', PFloat (f32 ieee_arith (f32 ieee_arith (1 / 32767) * 1000)))])"
  by (simp add: quantize_points_def quantize_int16_def Let_def ndim_def column_def np_min_def
      np_max_def f32_ints unit_if_zero_def normalize_point_def quantize_intensity_def)

lemma word_facts_real:
  "(signed (to_int16 (- 32767)) :: real) = - 32767" "(unsigned (to_uint16 65535) :: real) = 65535"
  using arg_cong[OF word_facts(1), of real_of_int] arg_cong[OF word_facts(2), of real]
  by simp_all

lemma dequantize_int16_example:
  "dequantize_points ieee_arith
     (QStruct [PointRecord (to_int16 (- 32767)) (to_int16 (- 32767)) (to_int16 (- 32767))
                 (to_uint16 65535)])
     (map_of [
            (''mode'', PStr ''int16''),
            (''dtype'', PStr ''int16 (xyz) + uint16 (intensity)''),
            (''bytes_per_point'', PInt 8),
            (''compression'', PFloat 0.5),
            (''bbox_min'', PList [PFloat 0, PFloat 0, PFloat 0]),
            (''bbox_max'', PList [PFloat 0, PFloat 0, PFloat 0]),
            (''intensity_scale'', PInt 65535),
            (''precision_mm'', PFloat (f32 ieee_arith (f32 ieee_arith (1 / 32767) * 1000)))]) =
   Inr (finite_array \<lparr>shape = [1, 4], rows = [[0, 0, 0, 1]]\<rparr>)"
  by (simp add: dequantize_points_def Let_def float_array_def denormalize_def bdim_def bget_def
      unit_if_zero_def f32_ints word_facts_real upt_rec)

lemma error_example:
  "compute_quantization_error exact_arith
     \<lparr>shape = [1, 4], rows = [[0, 0, 0, 50]]\<rparr> \<lparr>shape = [1, 4], rows = [[0, 0, 0, 1]]\<rparr> =
   Inr (map_of [
     (''max_error'', PFloat 49),
     (''mean_error'', PFloat (49 / 4)),
     (''rmse'', PFloat (49 / 2)),
     (''within_tolerance_1mm'', PBool False),
     (''max_error_mm'', PFloat 49000)])"
proof -
  have s: "sqrt (2401 / 4) = 49 / 2" by (rule real_sqrt_unique) (simp_all add: power2_eq_square)
  show ?thesis
    by (simp add: compute_quantization_error_def Let_def flatten_def np_max_def np_mean_def
        np_sum_def exact_arith_def s)
qed


text \<open>
  C2 fails as stated in two ways. In mode \<open>int16\<close> the cloud without points does not
  quantize: \<open>xyz.min(axis=0)\<close> raises \<open>ValueError\<close>. And the integer encoding
  takes the intensity to lie in \<open>[0, 1]\<close>: the one-point cloud \<open>(0, 0, 0, 50)\<close>,
  all of whose values are within \<open>[-100, 100]\<close>, comes back as \<open>(0, 0, 0, 1)\<close>,
  an RMS error of 24.5.
\<close>

theorem quantize_roundtrip_fails:
  "quantize_points ieee_arith \<lparr>shape = [0, 3], rows = []\<rparr> ''int16'' = Inl ValueError \<and>
   (case quantize_points ieee_arith \<lparr>shape = [1, 4], rows = [[0, 0, 0, 50]]\<rparr> ''int16'' of
      Inl e \<Rightarrow> False
    | Inr (q, md) \<Rightarrow>
        dequantize_points ieee_arith q md =
          Inr (finite_array \<lparr>shape = [1, 4], rows = [[0, 0, 0, 1]]\<rparr>)) \<and>
   compute_quantization_error exact_arith
     \<lparr>shape = [1, 4], rows = [[0, 0, 0, 50]]\<rparr> \<lparr>shape = [1, 4], rows = [[0, 0, 0, 1]]\<rparr> =
   Inr (map_of [
     (''max_error'', PFloat 49),
     (''mean_error'', PFloat (49 / 4)),
     (''rmse'', PFloat (49 / 2)),
     (''within_tolerance_1mm'', PBool False),
     (''max_error_mm'', PFloat 49000)]) \<and>
   \<not> ((49 / 2 :: real) < 0.01)"
proof -
  have "quantize_points ieee_arith \<lparr>shape = [0, 3], rows = []\<rparr> ''int16'' = Inl ValueError"
    by (simp add: quantize_points_def quantize_int16_def Let_def ndim_def column_def np_min_def)
  moreover have "\<not> ((49 / 2 :: real) < 0.01)" by simp
  ultimately show ?thesis
    unfolding quantize_int16_example using dequantize_int16_example error_example by simp
qed

text \<open>
  C2, as the code has it. For every cloud of width 3 or 4 with at least one point, with
  \<open>x\<close>, \<open>y\<close>, \<open>z\<close> in \<open>[-100, 100]\<close> and the intensity, if there is one, in
  \<open>[0, 1]\<close>: quantizing in binary32 arithmetic and dequantizing with the returned
  envelope succeeds in both modes, and the RMS error between the cloud and the result
  (the \<open>rmse\<close> of \<open>compute_quantization_error\<close>, taken without rounding) is below
  0.1 in mode \<open>fp16\<close> and below 0.01 in mode \<open>int16\<close>. The proofs bound every
  element: by 0.032 in mode \<open>fp16\<close> and by 0.0033 in mode \<open>int16\<close>.
\<close>

theorem quantize_roundtrip_error:
  assumes "wf_ndarray p" and "ndim p = 2" and "shape p ! 1 = 3 \<or> shape p ! 1 = 4"
    and "rows p \<noteq> []"
    and "\<forall>r\<in>set (rows p). \<forall>k<3. \<bar>r ! k\<bar> \<le> 100"
    and "shape p ! 1 = 4 \<longrightarrow> (\<forall>r\<in>set (rows p). 0 \<le> r ! 3 \<and> r ! 3 \<le> 1)"
  shows "(\<exists>q md d max_error mean_error rmse.
           quantize_points ieee_arith p ''fp16'' = Inr (q, md) \<and>
           dequantize_points ieee_arith q md = Inr (finite_array d) \<and>
           compute_quantization_error exact_arith p d = Inr (map_of [
             (''max_error'', PFloat max_error),
             (''mean_error'', PFloat mean_error),
             (''rmse'', PFloat rmse),
             (''within_tolerance_1mm'', PBool (max_error \<le> f64 exact_arith 0.001)),
             (''max_error_mm'', PFloat (f64 exact_arith (max_error * 1000)))]) \<and>
           rmse < 0.1) \<and>
         (\<exists>q md d max_error mean_error rmse.
           quantize_points ieee_arith p ''int16'' = Inr (q, md) \<and>
           dequantize_points ieee_arith q md = Inr (finite_array d) \<and>
           compute_quantization_error exact_arith p d = Inr (map_of [
             (''max_error'', PFloat max_error),
             (''mean_error'', PFloat mean_error),
             (''rmse'', PFloat rmse),
             (''within_tolerance_1mm'', PBool (max_error \<le> f64 exact_arith 0.001)),
             (''max_error_mm'', PFloat (f64 exact_arith (max_error * 1000)))]) \<and>
           rmse < 0.01)"
proof
  note s = wf_2d_rows[OF assms(1,2)]
  have len3: "\<forall>r\<in>set (rows p). 3 \<le> length r" using s(2) assms(3) by auto
  have fne: "flatten p \<noteq> []" using assms(4) len3 by (rule flatten_nonempty)
  have all: "\<forall>r\<in>set (rows p). \<forall>x\<in>set r. \<bar>x\<bar> \<le> 100"
  proof (intro ballI)
    fix r x assume r: "r \<in> set (rows p)" and "x \<in> set r"
    then obtain k where k: "k < length r" "x = r ! k" by (auto simp: in_set_conv_nth)
    show "\<bar>x\<bar> \<le> 100"
    proof (cases "k < 3")
      case True
      with assms(5) r k(2) show ?thesis by blast
    next
      case False
      with k(1) s(2) r assms(3) have "shape p ! 1 = 4" "k = 3" by auto
      with assms(6) r k(2) have "0 \<le> x" "x \<le> 1" by blast+
      then show ?thesis by simp
    qed
  qed
  from fp16_roundtrip_array[OF all fne]
  obtain q md d mx mn rm where "quantize_points ieee_arith p ''fp16'' = Inr (q, md)"
    "dequantize_points ieee_arith q md = Inr (finite_array d)"
    "compute_quantization_error exact_arith p d = Inr (map_of [
             (''max_error'', PFloat mx),
             (''mean_error'', PFloat mn),
             (''rmse'', PFloat rm),
             (''within_tolerance_1mm'', PBool (mx \<le> f64 exact_arith 0.001)),
             (''max_error_mm'', PFloat (f64 exact_arith (mx * 1000)))])"
    "rm \<le> 32 / 1000" by blast
  moreover from this(4) have "rm < 0.1" by simp
  ultimately show "\<exists>q md d max_error mean_error rmse.
           quantize_points ieee_arith p ''fp16'' = Inr (q, md) \<and>
           dequantize_points ieee_arith q md = Inr (finite_array d) \<and>
           compute_quantization_error exact_arith p d = Inr (map_of [
             (''max_error'', PFloat max_error),
             (''mean_error'', PFloat mean_error),
             (''rmse'', PFloat rmse),
             (''within_tolerance_1mm'', PBool (max_error \<le> f64 exact_arith 0.001)),
             (''max_error_mm'', PFloat (f64 exact_arith (max_error * 1000)))]) \<and>
           rmse < 0.1" by blast
  from int16_roundtrip_array[OF s(1) assms(3) s(2) assms(4,5,6)]
  obtain q md d mx mn rm where "quantize_points ieee_arith p ''int16'' = Inr (q, md)"
    "dequantize_points ieee_arith q md = Inr (finite_array d)"
    "compute_quantization_error exact_arith p d = Inr (map_of [
             (''max_error'', PFloat mx),
             (''mean_error'', PFloat mn),
             (''rmse'', PFloat rm),
             (''within_tolerance_1mm'', PBool (mx \<le> f64 exact_arith 0.001)),
             (''max_error_mm'', PFloat (f64 exact_arith (mx * 1000)))])"
    "rm \<le> 33 / 10000" by blast
  moreover from this(4) have "rm < 0.01" by simp
  ultimately show "\<exists>q md d max_error mean_error rmse.
           quantize_points ieee_arith p ''int16'' = Inr (q, md) \<and>
           dequantize_points ieee_arith q md = Inr (finite_array d) \<and>
           compute_quantization_error exact_arith p d = Inr (map_of [
             (''max_error'', PFloat max_error),
             (''mean_error'', PFloat mean_error),
             (''rmse'', PFloat rmse),
             (''within_tolerance_1mm'', PBool (max_error \<le> f64 exact_arith 0.001)),
             (''max_error_mm'', PFloat (f64 exact_arith (max_error * 1000)))]) \<and>
           rmse < 0.01" by blast
qed

theorem quantize_roundtrip_error_witness:
  "wf_ndarray \<lparr>shape = [2, 4], rows = [[1, 2, 3, 1 / 2], [- 4, 5, 6, 1 :: real]]\<rparr> \<and>
   (\<exists>q md d max_error mean_error rmse.
      quantize_points ieee_arith \<lparr>shape = [2, 4], rows = [[1, 2, 3, 1 / 2], [- 4, 5, 6, 1]]\<rparr>
        ''int16'' = Inr (q, md) \<and>
      dequantize_points ieee_arith q md = Inr (finite_array d) \<and>
      compute_quantization_error exact_arith
        \<lparr>shape = [2, 4], rows = [[1, 2, 3, 1 / 2], [- 4, 5, 6, 1]]\<rparr> d = Inr (map_of [
             (''max_error'', PFloat max_error),
             (''mean_error'', PFloat mean_error),
             (''rmse'', PFloat rmse),
             (''within_tolerance_1mm'', PBool (max_error \<le> f64 exact_arith 0.001)),
             (''max_error_mm'', PFloat (f64 exact_arith (max_error * 1000)))]) \<and>
      rmse < 0.01)"
proof -
  let ?p = "\<lparr>shape = [2, 4], rows = [[1, 2, 3, 1 / 2], [- 4, 5, 6, 1 :: real]]\<rparr>"
  have h1: "wf_ndarray ?p" by (simp add: wf_ndarray_def)
  have h2: "ndim ?p = 2" by (simp add: ndim_def)
  have h3: "shape ?p ! 1 = 3 \<or> shape ?p ! 1 = 4" by simp
  have h4: "rows ?p \<noteq> []" by simp
  have h5: "\<forall>r\<in>set (rows ?p). \<forall>k<3. \<bar>r ! k\<bar> \<le> 100" by (simp add: all_less_three)
  have h6: "shape ?p ! 1 = 4 \<longrightarrow> (\<forall>r\<in>set (rows ?p). 0 \<le> r ! 3 \<and> r ! 3 \<le> 1)" by simp
  from quantize_roundtrip_error[OF h1 h2 h3 h4 h5 h6] h1 show ?thesis by blast
qed


section \<open>Properties of the frame ordering check\<close>

lemma adjacent_pairs:
  "set (zip xs (tl xs)) = {(xs ! i, xs ! Suc i) | i. Suc i < length xs}"
proof -
  have "set (zip xs (tl xs)) = {(xs ! i, tl xs ! i) | i. i < min (length xs) (length (tl xs))}"
    by (rule set_zip)
  also have "\<dots> = {(xs ! i, xs ! Suc i) | i. Suc i < length xs}"
    by (auto simp: nth_tl less_diff_conv)
  finally show ?thesis .
qed

lemma no_adjacent_violation_iff_sorted:
  fixes key :: "'a \<Rightarrow> 'k::order"
  shows "filter (\<lambda>(a, b). \<not> key a < key b) (zip xs (tl xs)) = [] \<longleftrightarrow>
     sorted_wrt (<) (map key xs)"
proof -
  have "filter (\<lambda>(a, b). \<not> key a < key b) (zip xs (tl xs)) = [] \<longleftrightarrow>
      (\<forall>i. Suc i < length xs \<longrightarrow> key (xs ! i) < key (xs ! Suc i))"
    by (auto simp: filter_empty_conv adjacent_pairs)
  also have "\<dots> \<longleftrightarrow> (\<forall>i. Suc i < length (map key xs) \<longrightarrow> map key xs ! i < map key xs ! Suc i)"
    by auto
  also have "\<dots> \<longleftrightarrow> sorted_wrt (<) (map key xs)"
    by (rule sorted_wrt_iff_nth_Suc_transp[symmetric]) (auto simp: transp_def)
  finally show ?thesis .
qed

lemma ordering_error_names_ids:
  "sublist a (ordering_error a b) \<and> sublist b (ordering_error a b)"
  unfolding ordering_error_def sublist_def by (metis append.assoc append_Nil2)+

text \<open>
  C6. The check fails on an empty frame list. For every adjacent pair of ids that is
  not strictly increasing it fails and reports an error that names both ids. It passes
  exactly when the list is non-empty and the keys are strictly increasing.
\<close>

theorem validate_frame_ordering_correct:
  "(frames m = [] \<longrightarrow> \<not> fst (validate_frame_ordering key m)) \<and>
   (\<forall>i. Suc i < length (frames m) \<and>
         \<not> key (frame_id (frames m ! i)) < key (frame_id (frames m ! Suc i)) \<longrightarrow>
      \<not> fst (validate_frame_ordering key m) \<and>
      (\<exists>e \<in> set (snd (validate_frame_ordering key m)).
         sublist (frame_id (frames m ! i)) e \<and> sublist (frame_id (frames m ! Suc i)) e)) \<and>
   (fst (validate_frame_ordering key m) \<longleftrightarrow>
      frames m \<noteq> [] \<and> sorted_wrt (<) (map (\<lambda>f. key (frame_id f)) (frames m)))"
proof (intro conjI allI impI)
  show "\<not> fst (validate_frame_ordering key m)" if "frames m = []"
    using that by (simp add: validate_frame_ordering_def)
  show iff: "fst (validate_frame_ordering key m) \<longleftrightarrow>
      frames m \<noteq> [] \<and> sorted_wrt (<) (map (\<lambda>f. key (frame_id f)) (frames m))"
    using no_adjacent_violation_iff_sorted[of key "map frame_id (frames m)"]
    by (simp add: validate_frame_ordering_def Let_def comp_def)
  fix i
  assume v: "Suc i < length (frames m) \<and>
         \<not> key (frame_id (frames m ! i)) < key (frame_id (frames m ! Suc i))"
  let ?ids = "map frame_id (frames m)"
  from v have ne: "?ids \<noteq> []" by auto
  from v have "(?ids ! i, ?ids ! Suc i) \<in> set (zip ?ids (tl ?ids))"
    unfolding adjacent_pairs by (auto intro!: exI[of _ i])
  with v have "(?ids ! i, ?ids ! Suc i) \<in>
      set (filter (\<lambda>(a, b). \<not> key a < key b) (zip ?ids (tl ?ids)))"
    by simp
  then have "ordering_error (?ids ! i) (?ids ! Suc i) \<in>
      set (map (\<lambda>(a, b). ordering_error a b)
             (filter (\<lambda>(a, b). \<not> key a < key b) (zip ?ids (tl ?ids))))"
    by (metis (no_types, lifting) case_prod_conv image_eqI list.set_map)
  then have mem: "ordering_error (?ids ! i) (?ids ! Suc i) \<in>
      set (snd (validate_frame_ordering key m))"
    using ne by (simp add: validate_frame_ordering_def Let_def)
  then have "snd (validate_frame_ordering key m) \<noteq> []" by auto
  then show "\<not> fst (validate_frame_ordering key m)"
    using ne by (auto simp: validate_frame_ordering_def Let_def)
  from v have "?ids ! i = frame_id (frames m ! i)" "?ids ! Suc i = frame_id (frames m ! Suc i)"
    by simp_all
  with mem ordering_error_names_ids[of "?ids ! i" "?ids ! Suc i"]
  show "\<exists>e \<in> set (snd (validate_frame_ordering key m)).
         sublist (frame_id (frames m ! i)) e \<and> sublist (frame_id (frames m ! Suc i)) e"
    by metis
qed

lemma frame_number_examples:
  "frame_number ''000000'' = 0" "frame_number ''000001'' = 1" "frame_number ''000002'' = 2"
  by (simp_all add: frame_number_def)

theorem validate_frame_ordering_correct_witness:
  "frames \<lparr>frames = []\<rparr> = [] \<and>
   \<not> fst (validate_frame_ordering frame_number \<lparr>frames = []\<rparr>) \<and>
   fst (validate_frame_ordering frame_number
     \<lparr>frames = [\<lparr>frame_id = ''000000''\<rparr>, \<lparr>frame_id = ''000001''\<rparr>, \<lparr>frame_id = ''000002''\<rparr>]\<rparr>) \<and>
   \<not> fst (validate_frame_ordering frame_number
     \<lparr>frames = [\<lparr>frame_id = ''000001''\<rparr>, \<lparr>frame_id = ''000000''\<rparr>, \<lparr>frame_id = ''000002''\<rparr>]\<rparr>)"
proof -
  let ?good = "\<lparr>frames = [\<lparr>frame_id = ''000000''\<rparr>, \<lparr>frame_id = ''000001''\<rparr>, \<lparr>frame_id = ''000002''\<rparr>]\<rparr>"
  let ?bad = "\<lparr>frames = [\<lparr>frame_id = ''000001''\<rparr>, \<lparr>frame_id = ''000000''\<rparr>, \<lparr>frame_id = ''000002''\<rparr>]\<rparr>"
  have e: "frames \<lparr>frames = []\<rparr> = []" by simp
  have g: "frames ?good \<noteq> [] \<and> sorted_wrt (<) (map (\<lambda>f. frame_number (frame_id f)) (frames ?good))"
    by (simp add: frame_number_examples)
  have b: "Suc 0 < length (frames ?bad) \<and>
      \<not> frame_number (frame_id (frames ?bad ! 0)) < frame_number (frame_id (frames ?bad ! Suc 0))"
    by (simp add: frame_number_examples)
  from validate_frame_ordering_correct[of "\<lparr>frames = []\<rparr>" frame_number] e
  have 1: "\<not> fst (validate_frame_ordering frame_number \<lparr>frames = []\<rparr>)" by blast
  from validate_frame_ordering_correct[of ?good frame_number] g
  have 2: "fst (validate_frame_ordering frame_number ?good)" by blast
  from validate_frame_ordering_correct[of ?bad frame_number] b
  have 3: "\<not> fst (validate_frame_ordering frame_number ?bad)" by blast
  from e 1 2 3 show ?thesis by blast
qed

end
